theory Spec2Isabelle
  imports Complex_Main
begin

section \<open>Common Python values\<close>

text \<open>
  Exceptions are values. \<open>ValueError\<close> carries the message the source passes to it;
  \<open>LinAlgError\<close> is the exception of \<open>numpy.linalg\<close>.
\<close>

datatype error = ValueError string | IndexError | ZeroDivisionError | LinAlgError

text \<open>
  Python list indexing: a negative index counts from the end, an index outside
  \<open>[-n, n)\<close> raises \<open>IndexError\<close>. The result is the position that is read or written.
\<close>

definition py_index :: "nat \<Rightarrow> int \<Rightarrow> error + nat" where
  "py_index n i =
     (let j = (if i < 0 then int n + i else i)
      in if 0 \<le> j \<and> j < int n then Inr (nat j) else Inl IndexError)"

text \<open>Python's true division \<open>a / b\<close> of two ints; the quotient is taken in exact arithmetic.\<close>

definition py_truediv :: "int \<Rightarrow> int \<Rightarrow> error + real" where
  "py_truediv a b = (if b = 0 then Inl ZeroDivisionError else Inr (real_of_int a / real_of_int b))"

section \<open>lab4/classification.py\<close>

text \<open>\<open>matrix[actual][predicted] += 1\<close> on a list of (unshared) rows.\<close>

definition increment :: "int list list \<Rightarrow> int \<Rightarrow> int \<Rightarrow> error + int list list" where
  "increment matrix actual predicted =
     (case py_index (length matrix) actual of
        Inl e \<Rightarrow> Inl e
      | Inr a \<Rightarrow>
          (case py_index (length (matrix ! a)) predicted of
             Inl e \<Rightarrow> Inl e
           | Inr p \<Rightarrow> Inr (matrix[a := (matrix ! a)[p := matrix ! a ! p + 1]])))"

text \<open>The loop \<open>for actual, predicted in zip(y_true, y_pred)\<close> of \<open>get_confusion_matrix\<close>.\<close>

fun count_loop :: "int \<Rightarrow> int list list \<Rightarrow> (int \<times> int) list \<Rightarrow> error + int list list" where
  "count_loop num_classes matrix [] = Inr matrix"
| "count_loop num_classes matrix ((actual, predicted) # rest) =
     (if actual \<ge> num_classes \<or> predicted \<ge> num_classes
      then Inl (ValueError ''Invalid prediction classes!'')
      else (case increment matrix actual predicted of
              Inl e \<Rightarrow> Inl e
            | Inr matrix' \<Rightarrow> count_loop num_classes matrix' rest))"

definition get_confusion_matrix :: "int list \<Rightarrow> int list \<Rightarrow> int \<Rightarrow> error + int list list" where
  "get_confusion_matrix y_true y_pred num_classes =
     (if length y_true \<noteq> length y_pred then Inl (ValueError ''Invalid input shapes!'')
      else count_loop num_classes
             (replicate (nat num_classes) (replicate (nat num_classes) 0))
             (zip y_true y_pred))"

definition get_quality_factors :: "int list \<Rightarrow> int list \<Rightarrow> error + (int \<times> int \<times> int \<times> int)" where
  "get_quality_factors y_true y_pred =
     (case get_confusion_matrix y_true y_pred 2 of
        Inl e \<Rightarrow> Inl e
      | Inr matrix \<Rightarrow> Inr (matrix ! 0 ! 0, matrix ! 0 ! 1, matrix ! 1 ! 0, matrix ! 1 ! 1))"

definition accuracy_score :: "int list \<Rightarrow> int list \<Rightarrow> error + real" where
  "accuracy_score y_true y_pred =
     (case get_quality_factors y_true y_pred of
        Inl e \<Rightarrow> Inl e
      | Inr (TN, FP, FN, TP) \<Rightarrow> py_truediv (TP + TN) (TP + FN + FP + TN))"

definition precision_score :: "int list \<Rightarrow> int list \<Rightarrow> error + real" where
  "precision_score y_true y_pred =
     (case get_quality_factors y_true y_pred of
        Inl e \<Rightarrow> Inl e
      | Inr (TN, FP, FN, TP) \<Rightarrow> py_truediv TP (TP + FP))"

definition recall_score :: "int list \<Rightarrow> int list \<Rightarrow> error + real" where
  "recall_score y_true y_pred =
     (case get_quality_factors y_true y_pred of
        Inl e \<Rightarrow> Inl e
      | Inr (TN, FP, FN, TP) \<Rightarrow> py_truediv TP (TP + FN))"

definition f1_score :: "int list \<Rightarrow> int list \<Rightarrow> error + real" where
  "f1_score y_true y_pred =
     (case get_quality_factors y_true y_pred of
        Inl e \<Rightarrow> Inl e
      | Inr (TN, FP, FN, TP) \<Rightarrow> py_truediv (2 * TP) (2 * TP + FP + FN))"

text \<open>The number of samples with true label \<open>a\<close> and predicted label \<open>p\<close>.\<close>

definition pair_count :: "int list \<Rightarrow> int list \<Rightarrow> int \<Rightarrow> int \<Rightarrow> int" where
  "pair_count y_true y_pred a p = int (count_list (zip y_true y_pred) (a, p))"

text \<open>An \<open>n\<close> by \<open>n\<close> list of lists.\<close>

definition square_shape :: "nat \<Rightarrow> int list list \<Rightarrow> bool" where
  "square_shape n m = (length m = n \<and> list_all (\<lambda>row. length row = n) m)"

text \<open>Every label lies in \<open>[0, n)\<close>.\<close>

definition labels_in_range :: "nat \<Rightarrow> int list \<Rightarrow> bool" where
  "labels_in_range n ys = list_all (\<lambda>y. 0 \<le> y \<and> y < int n) ys"

section \<open>lab3/lss.py in exact arithmetic: the evaluator\<close>

text \<open>
  The idealisation first: a numpy array of floats is a list of reals, and the arithmetic
  on it is exact. The float64 arithmetic of the code follows further down. A value that Python's \<open>sum\<close> handles
  is either the int \<open>0\<close> it starts from (a scalar) or a one-dimensional array. All
  arrays that \<open>generalised_linear_model\<close> adds come from the same \<open>X\<close>, so
  they have equal lengths and the element-wise sum needs no broadcasting.
\<close>

datatype pyval = Scalar real | Vec "real list"

fun py_add :: "pyval \<Rightarrow> pyval \<Rightarrow> pyval" where
  "py_add (Scalar a) (Scalar b) = Scalar (a + b)"
| "py_add (Scalar a) (Vec v) = Vec (map (\<lambda>y. a + y) v)"
| "py_add (Vec u) (Scalar b) = Vec (map (\<lambda>x. x + b) u)"
| "py_add (Vec u) (Vec v) = Vec (map2 (+) u v)"

fun py_scale :: "real \<Rightarrow> pyval \<Rightarrow> pyval" where
  "py_scale a (Scalar s) = Scalar (a * s)"
| "py_scale a (Vec v) = Vec (map (\<lambda>y. a * y) v)"

text \<open>Python's \<open>sum(xs)\<close>: \<open>0 + xs[0] + xs[1] + ...\<close>, from the left.\<close>

definition py_sum :: "pyval list \<Rightarrow> pyval" where
  "py_sum xs = foldl py_add (Scalar 0) xs"

text \<open>
  \<open>sum([coeff * X ** degree for degree, coeff in enumerate(T)])\<close>, where \<open>T\<close> is the
  column of coefficients that \<open>least_squares_solution\<close> returns.
\<close>

definition generalised_linear_model :: "real list \<Rightarrow> real list \<Rightarrow> pyval" where
  "generalised_linear_model X T =
     py_sum (map (\<lambda>(degree, coeff). Vec (map (\<lambda>x. coeff * x ^ degree) X)) (enumerate 0 T))"

text \<open>The value at \<open>x\<close> of the polynomial with coefficients \<open>T\<close>, lowest power first.\<close>

definition poly_eval :: "real list \<Rightarrow> real \<Rightarrow> real" where
  "poly_eval T x = (\<Sum>k<length T. T ! k * x ^ k)"

section \<open>lab3/lss.py: the formatter\<close>

text \<open>The decimal digit \<open>d\<close> as a character, and \<open>str(n)\<close> for an int \<open>n \<ge> 0\<close>.\<close>

definition digit_char :: "nat \<Rightarrow> char" where
  "digit_char d = ''0123456789'' ! d"

fun str_nat :: "nat \<Rightarrow> string" where
  "str_nat n = (if n < 10 then [digit_char n] else str_nat (n div 10) @ [digit_char (n mod 10)])"

declare str_nat.simps [simp del]

text \<open>
  \<open>format(x, '.pf')\<close> prints the decimal expansion of the float \<open>x\<close> correctly rounded to
  \<open>p\<close> fractional digits, a tie going to the even digit: a minus sign when \<open>x\<close> is
  negative (also when the digits are all zero), the integer part, and for \<open>p > 0\<close> a point
  and exactly \<open>p\<close> digits. A negative precision is refused by the format specification.
  The float is taken as the real number it denotes, so a negative zero, an infinity and a
  NaN are outside this model.
\<close>

definition round_half_even :: "real \<Rightarrow> int" where
  "round_half_even r =
     (let f = \<lfloor>r\<rfloor>; d = r - of_int f
      in if d < 1/2 then f else if d > 1/2 then f + 1 else if even f then f else f + 1)"

definition format_f :: "int \<Rightarrow> real \<Rightarrow> error + string" where
  "format_f p x =
     (if p < 0 then Inl (ValueError ''Format specifier missing precision'')
      else
        let n = nat (round_half_even (\<bar>x\<bar> * 10 ^ nat p));
            whole = str_nat (n div 10 ^ nat p);
            frac = map (\<lambda>i. digit_char (n div 10 ^ (nat p - 1 - i) mod 10)) [0..<nat p]
        in Inr ((if x < 0 then ''-'' else '''') @ whole @ (if p = 0 then '''' else ''.'' @ frac)))"

text \<open>
  The loop \<open>while polynomial.endswith('0') and polynomial[-2] != '.'\<close>, which drops the
  last character; \<open>polynomial[-2]\<close> is read only when the string ends with \<open>0\<close>.
\<close>

function strip_zeros :: "string \<Rightarrow> error + string" where
  "strip_zeros s =
     (if s \<noteq> [] \<and> last s = CHR ''0''
      then (case py_index (length s) (- 2) of
              Inl e \<Rightarrow> Inl e
            | Inr k \<Rightarrow> if s ! k \<noteq> CHR ''.'' then strip_zeros (butlast s) else Inr s)
      else Inr s)"
  by pat_completeness auto
termination
  by (relation "measure length") auto

declare strip_zeros.simps [simp del]

text \<open>
  The loop \<open>for i in range(theta.size)\<close> over the coefficients \<open>theta[i][0]\<close>, with the
  string built so far; \<open>n\<close> is \<open>theta.size\<close>.
\<close>

fun print_loop :: "nat \<Rightarrow> int \<Rightarrow> nat \<Rightarrow> real list \<Rightarrow> string \<Rightarrow> error + string" where
  "print_loop n precission i [] polynomial = Inr polynomial"
| "print_loop n precission i (c # cs) polynomial =
     (case format_f precission c of
        Inl e \<Rightarrow> Inl e
      | Inr text \<Rightarrow>
          (case strip_zeros (polynomial @ text) of
             Inl e \<Rightarrow> Inl e
           | Inr stripped \<Rightarrow>
               print_loop n precission (i + 1) cs
                 (stripped @ ''*x^'' @ str_nat i @ (if i \<noteq> n - 1 then '' + '' else ''''))))"

definition print_polynomial :: "real list \<Rightarrow> int \<Rightarrow> error + string" where
  "print_polynomial theta precission = print_loop (length theta) precission 0 theta ''''"

text \<open>
  The text the specification describes, for a precision \<open>p > 0\<close>: the parts of the
  formatted coefficient, the fractional digits with trailing zeros removed after the first
  one, and the terms joined by \<open>" + "\<close>.
\<close>

definition integer_text :: "nat \<Rightarrow> real \<Rightarrow> string" where
  "integer_text p x =
     (if x < 0 then ''-'' else '''') @ str_nat (nat (round_half_even (\<bar>x\<bar> * 10 ^ p)) div 10 ^ p)"

definition fraction_digits :: "nat \<Rightarrow> real \<Rightarrow> string" where
  "fraction_digits p x =
     map (\<lambda>i. digit_char (nat (round_half_even (\<bar>x\<bar> * 10 ^ p)) div 10 ^ (p - 1 - i) mod 10)) [0..<p]"

fun strip_fraction :: "string \<Rightarrow> string" where
  "strip_fraction [] = []"
| "strip_fraction (d # ds) = d # rev (dropWhile (\<lambda>c. c = CHR ''0'') (rev ds))"

fun join_plus :: "string list \<Rightarrow> string" where
  "join_plus [] = ''''"
| "join_plus [t] = t"
| "join_plus (t # ts) = t @ '' + '' @ join_plus ts"

definition coefficient_text :: "nat \<Rightarrow> real \<Rightarrow> string" where
  "coefficient_text p x = integer_text p x @ ''.'' @ strip_fraction (fraction_digits p x)"

definition polynomial_text :: "nat \<Rightarrow> nat \<Rightarrow> real list \<Rightarrow> string" where
  "polynomial_text p i theta =
     join_plus (map (\<lambda>(k, c). coefficient_text p c @ ''*x^'' @ str_nat k) (enumerate i theta))"

section \<open>lab3/lss.py in exact arithmetic: the solver\<close>

text \<open>
  A two-dimensional array is a list of rows; where the number of columns cannot be read
  off the rows (an array with no rows) it is passed along. \<open>vander X n\<close> is
  \<open>np.vander(X, n, increasing=True)\<close>, \<open>transpose_m c A\<close> is \<open>A.T\<close> for \<open>A\<close> with \<open>c\<close>
  columns, \<open>matmul c A B\<close> is \<open>A @ B\<close> for \<open>B\<close> with \<open>c\<close> columns and \<open>matvec A v\<close> is
  \<open>A @ v\<close> for a one-dimensional \<open>v\<close>.
\<close>

definition vander :: "real list \<Rightarrow> nat \<Rightarrow> real list list" where
  "vander X n = map (\<lambda>x. map (\<lambda>k. x ^ k) [0..<n]) X"

definition transpose_m :: "nat \<Rightarrow> real list list \<Rightarrow> real list list" where
  "transpose_m c A = map (\<lambda>j. map (\<lambda>row. row ! j) A) [0..<c]"

definition dot :: "real list \<Rightarrow> real list \<Rightarrow> real" where
  "dot u v = sum_list (map2 (*) u v)"

definition matmul :: "nat \<Rightarrow> real list list \<Rightarrow> real list list \<Rightarrow> real list list" where
  "matmul c A B = map (\<lambda>row. map (\<lambda>j. dot row (map (\<lambda>r. r ! j) B)) [0..<c]) A"

definition matvec :: "real list list \<Rightarrow> real list \<Rightarrow> real list" where
  "matvec A v = map (\<lambda>row. dot row v) A"

text \<open>
  \<open>np.linalg.inv\<close> belongs to numpy, not to the repository: it is the parameter
  \<open>linalg_inv\<close>, which returns a matrix or raises. The source evaluates
  \<open>np.linalg.inv(X_poly.T @ X_poly) @ X_poly.T @ Y\<close> from the left, so the inverse is
  taken before \<open>Y\<close> is looked at, and the last product raises \<open>ValueError\<close> when \<open>Y\<close>
  is not as long as \<open>X\<close>. \<open>np.linalg.inv\<close> returns a matrix of the shape of its
  argument, so the product with \<open>X_poly.T\<close> is well-shaped. The result is the column
  \<open>theta.reshape(-1, 1)\<close>, as the list of its entries. The degree is a natural number.
\<close>

definition least_squares_solution ::
  "(real list list \<Rightarrow> error + real list list) \<Rightarrow> real list \<Rightarrow> real list \<Rightarrow> nat \<Rightarrow> error + real list" where
  "least_squares_solution linalg_inv X Y polynomial_degree =
     (let X_poly = vander X (polynomial_degree + 1);
          X_poly_T = transpose_m (polynomial_degree + 1) X_poly
      in case linalg_inv (matmul (polynomial_degree + 1) X_poly_T X_poly) of
           Inl e \<Rightarrow> Inl e
         | Inr B \<Rightarrow>
             if length Y \<noteq> length X
             then Inl (ValueError ''matmul: mismatch in core dimension'')
             else Inr (matvec (matmul (length X) B X_poly_T) Y))"

text \<open>Shapes, the identity matrix, two-sided inverses and the matrix of the normal equations.\<close>

definition mat :: "nat \<Rightarrow> nat \<Rightarrow> real list list \<Rightarrow> bool" where
  "mat r c A = (length A = r \<and> list_all (\<lambda>row. length row = c) A)"

definition identity :: "nat \<Rightarrow> real list list" where
  "identity n = map (\<lambda>i. map (\<lambda>j. if i = j then 1 else 0) [0..<n]) [0..<n]"

definition is_inverse :: "nat \<Rightarrow> real list list \<Rightarrow> real list list \<Rightarrow> bool" where
  "is_inverse n B A = (mat n n B \<and> matmul n B A = identity n \<and> matmul n A B = identity n)"

definition normal_matrix :: "real list \<Rightarrow> nat \<Rightarrow> real list list" where
  "normal_matrix X d = matmul (d + 1) (transpose_m (d + 1) (vander X (d + 1))) (vander X (d + 1))"

text \<open>
  What the theorems ask of \<open>np.linalg.inv\<close> at a matrix \<open>A\<close>: when \<open>A\<close> has an inverse,
  the call returns an inverse of \<open>A\<close>.
\<close>

definition returns_inverse ::
  "nat \<Rightarrow> (real list list \<Rightarrow> error + real list list) \<Rightarrow> real list list \<Rightarrow> bool" where
  "returns_inverse n linalg_inv A =
     ((\<exists>B. is_inverse n B A) \<longrightarrow> (\<exists>B. linalg_inv A = Inr B \<and> is_inverse n B A))"

text \<open>The columns of \<open>M\<close> are linearly independent: only the zero vector is mapped to zero.\<close>

definition full_column_rank :: "nat \<Rightarrow> real list list \<Rightarrow> bool" where
  "full_column_rank n M =
     (\<forall>v. length v = n \<and> matvec M v = replicate (length M) 0 \<longrightarrow> v = replicate n 0)"

text \<open>
  An inverse in exact arithmetic, by cofactors (\<open>det\<close> expands along the first row). It
  stands for \<open>np.linalg.inv\<close> where a theorem is applied to concrete data.
\<close>

definition drop_nth :: "nat \<Rightarrow> 'a list \<Rightarrow> 'a list" where
  "drop_nth i xs = take i xs @ drop (Suc i) xs"

fun det :: "real list list \<Rightarrow> real" where
  "det [] = 1"
| "det (r # rs) = (\<Sum>j\<leftarrow>[0..<length r]. (- 1) ^ j * r ! j * det (map (drop_nth j) rs))"

definition exact_inv :: "real list list \<Rightarrow> error + real list list" where
  "exact_inv A =
     (if det A = 0 then Inl LinAlgError
      else Inr (map (\<lambda>i. map (\<lambda>j. (- 1) ^ (i + j) * det (map (drop_nth i) (drop_nth j A)) / det A)
                         [0..<length A]) [0..<length A]))"

section \<open>Binary64 arithmetic\<close>

text \<open>
  The arrays of \<open>lss.py\<close> hold float64 numbers (the interface is a sequence of floats). A
  float64 value is a finite binary64 number, taken as the real number it denotes, an
  infinity or a NaN; the sign of zero is not distinguished. \<open>round_f64\<close> rounds a real to
  the nearest binary64 number, a tie going to the even significand, with the subnormal
  range below \<open>2^-1022\<close> and overflow to an infinity from \<open>2^1024\<close> on; \<open>exponent x\<close> is the
  integer \<open>e\<close> with \<open>2^e \<le> |x| < 2^(e+1)\<close>. \<open>fadd\<close> and \<open>fmul\<close> are the IEEE 754 sum and
  product: the exact result, rounded.
\<close>

datatype f64 = Finite real | PosInf | NegInf | NaN

definition pow2 :: "int \<Rightarrow> real" where
  "pow2 k = (if 0 \<le> k then 2 ^ nat k else 1 / 2 ^ nat (- k))"

function expo_up :: "real \<Rightarrow> int" where
  "expo_up x = (if 2 \<le> x then expo_up (x / 2) + 1 else 0)"
  by pat_completeness auto
termination
proof (relation "measure (\<lambda>x. nat \<lfloor>x\<rfloor>)")
  show "wf (measure (\<lambda>x. nat \<lfloor>x\<rfloor>))" by simp
next
  fix x :: real assume x: "2 \<le> x"
  have "\<lfloor>x / 2\<rfloor> \<le> \<lfloor>x - 1\<rfloor>" using x by (intro floor_mono) simp
  then have "\<lfloor>x / 2\<rfloor> < \<lfloor>x\<rfloor>" by simp
  moreover have "0 < \<lfloor>x\<rfloor>" using x by simp
  ultimately show "(x / 2, x) \<in> measure (\<lambda>x. nat \<lfloor>x\<rfloor>)" by simp
qed

function expo_down :: "real \<Rightarrow> int" where
  "expo_down x = (if 0 < x \<and> x < 1 then expo_down (2 * x) - 1 else 0)"
  by pat_completeness auto
termination
proof (relation "measure (\<lambda>x. nat \<lceil>1 / x\<rceil>)")
  show "wf (measure (\<lambda>x. nat \<lceil>1 / x\<rceil>))" by simp
next
  fix x :: real assume x: "0 < x \<and> x < 1"
  define y where "y = 1 / x"
  have y: "1 < y" using x by (simp add: y_def)
  have "\<lceil>y / 2\<rceil> < \<lceil>y\<rceil>"
  proof (cases "2 \<le> y")
    case True
    have "real_of_int \<lceil>y / 2\<rceil> < y / 2 + 1" by linarith
    also have "\<dots> \<le> y" using True by simp
    also have "\<dots> \<le> real_of_int \<lceil>y\<rceil>" by linarith
    finally show ?thesis by simp
  next
    case False
    then have "\<lceil>y / 2\<rceil> = 1" using y by (intro ceiling_unique) simp_all
    moreover have "1 < \<lceil>y\<rceil>" using y by linarith
    ultimately show ?thesis by simp
  qed
  moreover have "0 < \<lceil>y\<rceil>" using y by linarith
  moreover have "1 / (2 * x) = y / 2" by (simp add: y_def)
  ultimately show "(2 * x, x) \<in> measure (\<lambda>x. nat \<lceil>1 / x\<rceil>)"
    by (simp add: y_def mult.commute)
qed

declare expo_up.simps [simp del]
declare expo_down.simps [simp del]

definition exponent :: "real \<Rightarrow> int" where
  "exponent x = (if 1 \<le> \<bar>x\<bar> then expo_up \<bar>x\<bar> else expo_down \<bar>x\<bar>)"

definition round_f64 :: "real \<Rightarrow> f64" where
  "round_f64 x =
     (let e = max (exponent x) (- 1022);
          q = pow2 (e - 52);
          m = round_half_even (x / q)
      in if 2 ^ 1024 \<le> \<bar>of_int m * q\<bar> then (if 0 < x then PosInf else NegInf)
         else Finite (of_int m * q))"

fun fadd :: "f64 \<Rightarrow> f64 \<Rightarrow> f64" where
  "fadd (Finite a) (Finite b) = round_f64 (a + b)"
| "fadd NaN _ = NaN"
| "fadd _ NaN = NaN"
| "fadd PosInf NegInf = NaN"
| "fadd NegInf PosInf = NaN"
| "fadd PosInf _ = PosInf"
| "fadd _ PosInf = PosInf"
| "fadd NegInf _ = NegInf"
| "fadd _ NegInf = NegInf"

fun fmul :: "f64 \<Rightarrow> f64 \<Rightarrow> f64" where
  "fmul (Finite a) (Finite b) = round_f64 (a * b)"
| "fmul NaN _ = NaN"
| "fmul _ NaN = NaN"
| "fmul (Finite a) PosInf = (if a = 0 then NaN else if 0 < a then PosInf else NegInf)"
| "fmul (Finite a) NegInf = (if a = 0 then NaN else if 0 < a then NegInf else PosInf)"
| "fmul PosInf (Finite b) = (if b = 0 then NaN else if 0 < b then PosInf else NegInf)"
| "fmul NegInf (Finite b) = (if b = 0 then NaN else if 0 < b then NegInf else PosInf)"
| "fmul PosInf PosInf = PosInf"
| "fmul PosInf NegInf = NegInf"
| "fmul NegInf PosInf = NegInf"
| "fmul NegInf NegInf = PosInf"

section \<open>lab3/lss.py in float64: the evaluator\<close>

text \<open>
  \<open>X ** degree\<close> with an int \<open>degree\<close>: numpy returns ones for 0, the array itself for 1
  and the rounded square for 2, and calls the C library's \<open>pow\<close> otherwise. That routine
  is not part of the repository and is not correctly rounded in general, so it is the
  parameter \<open>libm_pow\<close>; \<open>pow_rn\<close>, the correctly rounded power, stands for it where a
  theorem is applied to concrete data. \<open>generalised_linear_model_f64\<close> is the source
  line \<open>sum([coeff * X ** degree for degree, coeff in enumerate(T)])\<close> with these
  operations; Python's \<open>sum\<close> starts from the int 0, which numpy adds as \<open>0.0\<close>.
\<close>

definition power_f64 :: "(f64 \<Rightarrow> nat \<Rightarrow> f64) \<Rightarrow> f64 \<Rightarrow> nat \<Rightarrow> f64" where
  "power_f64 libm_pow x k =
     (if k = 0 then Finite 1 else if k = 1 then x else if k = 2 then fmul x x else libm_pow x k)"

fun pow_rn :: "f64 \<Rightarrow> nat \<Rightarrow> f64" where
  "pow_rn (Finite a) k = round_f64 (a ^ k)"
| "pow_rn PosInf k = PosInf"
| "pow_rn NegInf k = (if even k then PosInf else NegInf)"
| "pow_rn NaN k = NaN"

datatype pyval_f64 = ScalarF f64 | VecF "f64 list"

fun py_add_f64 :: "pyval_f64 \<Rightarrow> pyval_f64 \<Rightarrow> pyval_f64" where
  "py_add_f64 (ScalarF a) (ScalarF b) = ScalarF (fadd a b)"
| "py_add_f64 (ScalarF a) (VecF v) = VecF (map (\<lambda>y. fadd a y) v)"
| "py_add_f64 (VecF u) (ScalarF b) = VecF (map (\<lambda>x. fadd x b) u)"
| "py_add_f64 (VecF u) (VecF v) = VecF (map2 fadd u v)"

fun py_scale_f64 :: "f64 \<Rightarrow> pyval_f64 \<Rightarrow> pyval_f64" where
  "py_scale_f64 a (ScalarF s) = ScalarF (fmul a s)"
| "py_scale_f64 a (VecF v) = VecF (map (\<lambda>y. fmul a y) v)"

definition py_sum_f64 :: "pyval_f64 list \<Rightarrow> pyval_f64" where
  "py_sum_f64 xs = foldl py_add_f64 (ScalarF (Finite 0)) xs"

definition generalised_linear_model_f64 ::
  "(f64 \<Rightarrow> nat \<Rightarrow> f64) \<Rightarrow> f64 list \<Rightarrow> f64 list \<Rightarrow> pyval_f64" where
  "generalised_linear_model_f64 libm_pow X T =
     py_sum_f64 (map (\<lambda>(degree, coeff). VecF (map (\<lambda>x. fmul coeff (power_f64 libm_pow x degree)) X))
                     (enumerate 0 T))"

definition float_sum :: "(f64 \<Rightarrow> nat \<Rightarrow> f64) \<Rightarrow> f64 list \<Rightarrow> f64 \<Rightarrow> f64" where
  "float_sum libm_pow T x =
     foldl fadd (Finite 0) (map (\<lambda>k. fmul (T ! k) (power_f64 libm_pow x k)) [0..<length T])"

text \<open>
  \<open>float_sum\<close> is the sum that the evaluator accumulates at one point. \<open>exact_eval\<close> says
  that no operation of that sum rounds: every power, product and partial sum is the exact
  one. \<open>exact_combination a b u v\<close> says the same of \<open>a * u + b * v\<close>.
\<close>

fun exact_from :: "(f64 \<Rightarrow> nat \<Rightarrow> f64) \<Rightarrow> real \<Rightarrow> nat \<Rightarrow> real list \<Rightarrow> real \<Rightarrow> bool" where
  "exact_from pw x n [] acc = True"
| "exact_from pw x n (c # cs) acc =
     (power_f64 pw (Finite x) n = Finite (x ^ n)
      \<and> fmul (Finite c) (Finite (x ^ n)) = Finite (c * x ^ n)
      \<and> fadd (Finite acc) (Finite (c * x ^ n)) = Finite (acc + c * x ^ n)
      \<and> exact_from pw x (Suc n) cs (acc + c * x ^ n))"

definition exact_eval :: "(f64 \<Rightarrow> nat \<Rightarrow> f64) \<Rightarrow> real list \<Rightarrow> real \<Rightarrow> bool" where
  "exact_eval pw ts x = exact_from pw x 0 ts 0"

definition exact_combination :: "real \<Rightarrow> real \<Rightarrow> real \<Rightarrow> real \<Rightarrow> bool" where
  "exact_combination a b u v =
     (fadd (fmul (Finite a) (Finite u)) (fmul (Finite b) (Finite v)) = Finite (a * u + b * v))"

section \<open>lab3/lss.py in float64: the solver\<close>

text \<open>
  \<open>np.vander(X, n, increasing=True)\<close> fills column 0 with ones and the others with the
  running products of \<open>multiply.accumulate\<close>: \<open>x\<close>, \<open>x * x\<close>, \<open>(x * x) * x\<close>, each one
  rounded. The products \<open>@\<close> are accumulated from the left, each operation rounded (the
  order inside the BLAS routine is not fixed by numpy). \<open>np.linalg.inv\<close> is again a
  parameter. \<open>is_f64\<close> holds of the values that a float64 can take; \<open>inv_f64\<close>, which
  raises on an exactly singular matrix of finite entries and rounds the entries of the
  exact inverse otherwise, stands for \<open>np.linalg.inv\<close> where a theorem is applied to
  concrete data.
\<close>

fun accumulate_power :: "f64 \<Rightarrow> nat \<Rightarrow> f64" where
  "accumulate_power x 0 = Finite 1"
| "accumulate_power x (Suc 0) = x"
| "accumulate_power x (Suc (Suc k)) = fmul (accumulate_power x (Suc k)) x"

definition vander_f64 :: "f64 list \<Rightarrow> nat \<Rightarrow> f64 list list" where
  "vander_f64 X n = map (\<lambda>x. map (\<lambda>k. accumulate_power x k) [0..<n]) X"

definition transpose_f64 :: "nat \<Rightarrow> f64 list list \<Rightarrow> f64 list list" where
  "transpose_f64 c A = map (\<lambda>j. map (\<lambda>row. row ! j) A) [0..<c]"

definition dot_f64 :: "f64 list \<Rightarrow> f64 list \<Rightarrow> f64" where
  "dot_f64 u v = foldl fadd (Finite 0) (map2 fmul u v)"

definition matmul_f64 :: "nat \<Rightarrow> f64 list list \<Rightarrow> f64 list list \<Rightarrow> f64 list list" where
  "matmul_f64 c A B = map (\<lambda>row. map (\<lambda>j. dot_f64 row (map (\<lambda>r. r ! j) B)) [0..<c]) A"

definition matvec_f64 :: "f64 list list \<Rightarrow> f64 list \<Rightarrow> f64 list" where
  "matvec_f64 A v = map (\<lambda>row. dot_f64 row v) A"

definition normal_matrix_f64 :: "f64 list \<Rightarrow> nat \<Rightarrow> f64 list list" where
  "normal_matrix_f64 X d =
     matmul_f64 (d + 1) (transpose_f64 (d + 1) (vander_f64 X (d + 1))) (vander_f64 X (d + 1))"

definition least_squares_solution_f64 ::
  "(f64 list list \<Rightarrow> error + f64 list list) \<Rightarrow> f64 list \<Rightarrow> f64 list \<Rightarrow> nat \<Rightarrow> error + f64 list" where
  "least_squares_solution_f64 linalg_inv X Y polynomial_degree =
     (let X_poly = vander_f64 X (polynomial_degree + 1);
          X_poly_T = transpose_f64 (polynomial_degree + 1) X_poly
      in case linalg_inv (matmul_f64 (polynomial_degree + 1) X_poly_T X_poly) of
           Inl e \<Rightarrow> Inl e
         | Inr B \<Rightarrow>
             if length Y \<noteq> length X
             then Inl (ValueError ''matmul: mismatch in core dimension'')
             else Inr (matvec_f64 (matmul_f64 (length X) B X_poly_T) Y))"


fun to_real :: "f64 \<Rightarrow> real" where
  "to_real (Finite z) = z"
| "to_real _ = 0"

fun is_finite :: "f64 \<Rightarrow> bool" where
  "is_finite (Finite z) = True"
| "is_finite _ = False"

definition inv_f64 :: "f64 list list \<Rightarrow> error + f64 list list" where
  "inv_f64 A =
     (if list_all (list_all is_finite) A
      then (case exact_inv (map (map to_real) A) of
              Inl e \<Rightarrow> Inl e
            | Inr B \<Rightarrow> Inr (map (map round_f64) B))
      else Inr (map (map (\<lambda>_. NaN)) A))"

section \<open>Properties of lab4/classification.py\<close>

lemmas confusion_defs =
  get_confusion_matrix_def increment_def py_index_def

lemma py_index_nonneg: "0 \<le> i \<Longrightarrow> i < int n \<Longrightarrow> py_index n i = Inr (nat i)"
  by (simp add: py_index_def)

lemma square_shape_nth: "square_shape n m \<Longrightarrow> i < n \<Longrightarrow> length (m ! i) = n"
  by (simp add: square_shape_def list_all_length)

lemma increment_in_range:
  assumes "square_shape n m" "0 \<le> a" "a < int n" "0 \<le> p" "p < int n"
  shows "increment m a p = Inr (m[nat a := (m ! nat a)[nat p := m ! nat a ! nat p + 1]])"
proof -
  have l: "nat a < n" using assms by simp
  have "length m = n" "length (m ! nat a) = n"
    using assms(1) l by (simp_all add: square_shape_def list_all_length)
  then show ?thesis
    using assms by (simp add: increment_def py_index_nonneg)
qed

lemma square_shape_update:
  assumes "square_shape n m" "i < n"
  shows "square_shape n (m[i := (m ! i)[j := v]])"
  using assms by (auto simp: square_shape_def list_all_length nth_list_update)

lemma count_loop_counts:
  assumes "square_shape n m"
    and "list_all (\<lambda>(a, p). 0 \<le> a \<and> a < int n \<and> 0 \<le> p \<and> p < int n) ps"
  shows "\<exists>m'. count_loop (int n) m ps = Inr m' \<and> square_shape n m' \<and>
           (\<forall>i<n. \<forall>j<n. m' ! i ! j = m ! i ! j + int (count_list ps (int i, int j)))"
  using assms
proof (induction ps arbitrary: m)
  case Nil
  then show ?case by simp
next
  case (Cons x ps)
  obtain a p where x: "x = (a, p)" by (cases x)
  from Cons.prems x have r: "0 \<le> a" "a < int n" "0 \<le> p" "p < int n"
    and rest: "list_all (\<lambda>(a, p). 0 \<le> a \<and> a < int n \<and> 0 \<le> p \<and> p < int n) ps"
    by auto
  let ?m1 = "m[nat a := (m ! nat a)[nat p := m ! nat a ! nat p + 1]]"
  have inc: "increment m a p = Inr ?m1"
    using increment_in_range[OF Cons.prems(1) r] .
  have sh: "square_shape n ?m1"
    using square_shape_update[OF Cons.prems(1)] r by simp
  from Cons.IH[OF sh rest] obtain m' where
    m': "count_loop (int n) ?m1 ps = Inr m'" "square_shape n m'"
    "\<forall>i<n. \<forall>j<n. m' ! i ! j = ?m1 ! i ! j + int (count_list ps (int i, int j))"
    by blast
  have step: "count_loop (int n) m (x # ps) = Inr m'"
    using r inc m'(1) by (simp add: x)
  have cells: "m' ! i ! j = m ! i ! j + int (count_list (x # ps) (int i, int j))"
    if "i < n" "j < n" for i j
  proof -
    have len: "length m = n" "length (m ! nat a) = n"
      using Cons.prems(1) r by (simp_all add: square_shape_def list_all_length)
    have "?m1 ! i ! j = m ! i ! j + (if (int i, int j) = (a, p) then 1 else 0)"
      using that len r by (auto simp: nth_list_update)
    with m'(3) that show ?thesis by (simp add: x)
  qed
  from step m'(2) cells show ?case by blast
qed

lemma zip_in_range:
  "labels_in_range n ys \<Longrightarrow> labels_in_range n zs \<Longrightarrow>
   list_all (\<lambda>(a, p). 0 \<le> a \<and> a < int n \<and> 0 \<le> p \<and> p < int n) (zip ys zs)"
  by (auto simp: labels_in_range_def list_all_iff dest: set_zip_leftD set_zip_rightD)

lemma square_shape_zero: "square_shape n (replicate n (replicate n 0))"
  by (simp add: square_shape_def list_all_iff)

lemma confusion_matrix_shape_mismatch:
  "length y_true \<noteq> length y_pred \<Longrightarrow>
   get_confusion_matrix y_true y_pred num_classes = Inl (ValueError ''Invalid input shapes!'')"
  by (simp add: get_confusion_matrix_def)

lemma confusion_matrix_counts:
  assumes "length y_true = length y_pred"
    and "labels_in_range n y_true" and "labels_in_range n y_pred"
  shows "\<exists>m. get_confusion_matrix y_true y_pred (int n) = Inr m \<and> square_shape n m \<and>
           (\<forall>a<n. \<forall>p<n. m ! a ! p = pair_count y_true y_pred (int a) (int p))"
proof -
  from count_loop_counts[OF square_shape_zero zip_in_range[OF assms(2,3)]]
  obtain m where m: "count_loop (int n) (replicate n (replicate n 0)) (zip y_true y_pred) = Inr m"
    "square_shape n m"
    "\<forall>i<n. \<forall>j<n. m ! i ! j = replicate n (replicate n 0) ! i ! j
        + int (count_list (zip y_true y_pred) (int i, int j))"
    by blast
  have "get_confusion_matrix y_true y_pred (int n) = Inr m"
    using assms(1) m(1) by (simp add: get_confusion_matrix_def)
  moreover have "\<forall>a<n. \<forall>p<n. m ! a ! p = pair_count y_true y_pred (int a) (int p)"
    using m(3) by (simp add: pair_count_def)
  ultimately show ?thesis using m(2) by blast
qed

lemma count_loop_too_large:
  assumes "(a, p) \<in> set ps" "a \<ge> nc \<or> p \<ge> nc"
  shows "\<exists>e. count_loop nc m ps = Inl e"
  using assms
proof (induction ps arbitrary: m)
  case Nil
  then show ?case by simp
next
  case (Cons x ps)
  obtain a' p' where x: "x = (a', p')" by (cases x)
  show ?case
  proof (cases "a' \<ge> nc \<or> p' \<ge> nc")
    case True
    then show ?thesis by (simp add: x)
  next
    case False
    with Cons.prems x have "(a, p) \<in> set ps" by auto
    from Cons.IH[OF this Cons.prems(2)] show ?thesis
      using False by (auto simp: x split: sum.splits)
  qed
qed

lemma quality_factors_counts:
  assumes "length y_true = length y_pred"
    and "labels_in_range 2 y_true" and "labels_in_range 2 y_pred"
  shows "get_quality_factors y_true y_pred =
           Inr (pair_count y_true y_pred 0 0, pair_count y_true y_pred 0 1,
                pair_count y_true y_pred 1 0, pair_count y_true y_pred 1 1)"
proof -
  from confusion_matrix_counts[OF assms] obtain m where
    m: "get_confusion_matrix y_true y_pred (int 2) = Inr m"
    and c: "\<forall>a<2. \<forall>p<2. m ! a ! p = pair_count y_true y_pred (int a) (int p)"
    by blast
  have "m ! 0 ! 0 = pair_count y_true y_pred 0 0" "m ! 0 ! 1 = pair_count y_true y_pred 0 1"
    "m ! 1 ! 0 = pair_count y_true y_pred 1 0" "m ! 1 ! 1 = pair_count y_true y_pred 1 1"
    using c[rule_format, of 0 0] c[rule_format, of 0 1] c[rule_format, of 1 0]
      c[rule_format, of 1 1] by simp_all
  then show ?thesis using m by (simp add: get_quality_factors_def)
qed

text \<open>
  C7. On two label lists of equal length with labels 0 and 1, \<open>precision_score\<close>,
  \<open>recall_score\<close> and \<open>f1_score\<close> follow one policy: each raises
  \<open>ZeroDivisionError\<close> exactly when its denominator (\<open>TP + FP\<close>, \<open>TP + FN\<close>,
  \<open>2 TP + FP + FN\<close>) is zero, and returns the ratio otherwise.
\<close>

theorem zero_denominator_policy:
  assumes "length y_true = length y_pred"
    and "labels_in_range 2 y_true" and "labels_in_range 2 y_pred"
    and "TP = pair_count y_true y_pred 1 1" and "FP = pair_count y_true y_pred 0 1"
    and "FN = pair_count y_true y_pred 1 0"
  shows "precision_score y_true y_pred =
           (if TP + FP = 0 then Inl ZeroDivisionError
            else Inr (real_of_int TP / real_of_int (TP + FP)))
       \<and> recall_score y_true y_pred =
           (if TP + FN = 0 then Inl ZeroDivisionError
            else Inr (real_of_int TP / real_of_int (TP + FN)))
       \<and> f1_score y_true y_pred =
           (if 2 * TP + FP + FN = 0 then Inl ZeroDivisionError
            else Inr (real_of_int (2 * TP) / real_of_int (2 * TP + FP + FN)))"
  using quality_factors_counts[OF assms(1,2,3)] assms(4,5,6)
  by (simp add: precision_score_def recall_score_def f1_score_def py_truediv_def)

theorem zero_denominator_policy_witness:
  "precision_score [0, 0] [0, 0] = Inl ZeroDivisionError
   \<and> recall_score [0, 0] [0, 0] = Inl ZeroDivisionError
   \<and> f1_score [0, 0] [0, 0] = Inl ZeroDivisionError
   \<and> precision_score [0, 1, 1, 0] [0, 1, 0, 0] = Inr 1
   \<and> recall_score [0, 1, 1, 0] [0, 1, 0, 0] = Inr (1 / 2)
   \<and> f1_score [0, 1, 1, 0] [0, 1, 0, 0] = Inr (2 / 3)
   \<and> precision_score [1, 1] [0, 0] = Inl ZeroDivisionError
   \<and> recall_score [1, 1] [0, 0] = Inr 0"
proof -
  have l: "labels_in_range 2 [0, 0]" "labels_in_range 2 [0, 1, 1, 0]"
    "labels_in_range 2 [0, 1, 0, 0]" "labels_in_range 2 [1, 1]"
    by (simp_all add: labels_in_range_def)
  show ?thesis
    using zero_denominator_policy[OF _ l(1) l(1) refl refl refl]
      zero_denominator_policy[OF _ l(2) l(3) refl refl refl]
      zero_denominator_policy[OF _ l(4) l(1) refl refl refl]
    by (simp add: pair_count_def)
qed

text \<open>
  C5. The loop rejects a label that is \<open>num_classes\<close> or more, and nothing rejects a
  negative one: with two classes the true label \<open>-1\<close> is counted in row \<open>1\<close> through
  Python's negative indexing, where the specification asks for an "invalid class" failure.
  The lemmas above are the parts of the statement that hold: the length check comes first,
  a label that is too large fails, and labels within range are counted cell by cell.
\<close>

theorem negative_label_accepted:
  "get_confusion_matrix [-1] [0] 2 = Inr [[0, 0], [1, 0]]"
  by (simp add: confusion_defs numeral_2_eq_2)

text \<open>
  C8. For \<open>y_true = [0,1,1,0]\<close>, \<open>y_pred = [0,1,0,0]\<close>: the confusion matrix for two
  classes is \<open>[[2,0],[1,1]]\<close>, the accuracy is 3/4, the precision 1, the recall 1/2 and
  the F1 score \<open>2*1*0.5/(1+0.5)\<close>, which is 2/3 and within 0.001 of 0.667.
\<close>

theorem metrics_example:
  "get_confusion_matrix [0,1,1,0] [0,1,0,0] 2 = Inr [[2,0],[1,1]]
   \<and> get_quality_factors [0,1,1,0] [0,1,0,0] = Inr (2, 0, 1, 1)
   \<and> accuracy_score [0,1,1,0] [0,1,0,0] = Inr (3/4)
   \<and> precision_score [0,1,1,0] [0,1,0,0] = Inr 1
   \<and> recall_score [0,1,1,0] [0,1,0,0] = Inr (1/2)
   \<and> f1_score [0,1,1,0] [0,1,0,0] = Inr (2 * 1 * (1/2) / (1 + 1/2))
   \<and> \<bar>2 * 1 * (1/2) / (1 + 1/2) - 0.667\<bar> < (0.001 :: real)"
proof -
  have m: "get_confusion_matrix [0,1,1,0] [0,1,0,0] 2 = Inr [[2,0],[1,1]]"
    by (simp add: confusion_defs numeral_2_eq_2)
  have q: "get_quality_factors [0,1,1,0] [0,1,0,0] = Inr (2, 0, 1, 1)"
    by (simp add: get_quality_factors_def m)
  show ?thesis
    by (simp add: m q accuracy_score_def precision_score_def recall_score_def f1_score_def
        py_truediv_def)
qed

section \<open>Properties of the evaluator in exact arithmetic\<close>

lemma foldl_terms:
  "foldl py_add (Vec (map g X))
     (map (\<lambda>(degree, coeff). Vec (map (\<lambda>x. coeff * x ^ degree) X)) (enumerate n T))
   = Vec (map (\<lambda>x. g x + (\<Sum>k<length T. T ! k * x ^ (n + k))) X)"
proof (induction T arbitrary: n g)
  case Nil
  then show ?case by simp
next
  case (Cons c T)
  have "map2 (+) (map g X) (map (\<lambda>x. c * x ^ n) X) = map (\<lambda>x. g x + c * x ^ n) X"
    by (induction X) simp_all
  then have "foldl py_add (Vec (map g X))
     (map (\<lambda>(degree, coeff). Vec (map (\<lambda>x. coeff * x ^ degree) X)) (enumerate n (c # T)))
     = foldl py_add (Vec (map (\<lambda>x. g x + c * x ^ n) X))
     (map (\<lambda>(degree, coeff). Vec (map (\<lambda>x. coeff * x ^ degree) X)) (enumerate (Suc n) T))"
    by simp
  also have "\<dots> = Vec (map (\<lambda>x. (g x + c * x ^ n) + (\<Sum>k<length T. T ! k * x ^ (Suc n + k))) X)"
    by (rule Cons.IH)
  also have "\<dots> = Vec (map (\<lambda>x. g x + (\<Sum>k<length (c # T). (c # T) ! k * x ^ (n + k))) X)"
    by (simp add: sum.lessThan_Suc_shift add.assoc del: sum.lessThan_Suc)
  finally show ?case .
qed

lemma glm_closed_form:
  "generalised_linear_model X T =
     (if T = [] then Scalar 0 else Vec (map (poly_eval T) X))"
proof (cases T)
  case Nil
  then show ?thesis by (simp add: generalised_linear_model_def py_sum_def)
next
  case (Cons c T')
  have "generalised_linear_model X (c # T') =
     foldl py_add (Vec (map (\<lambda>x. 0 + c * x ^ 0) X))
       (map (\<lambda>(degree, coeff). Vec (map (\<lambda>x. coeff * x ^ degree) X)) (enumerate (Suc 0) T'))"
    by (simp add: generalised_linear_model_def py_sum_def comp_def)
  also have "\<dots> = Vec (map (\<lambda>x. (0 + c * x ^ 0) + (\<Sum>k<length T'. T' ! k * x ^ (Suc 0 + k))) X)"
    by (rule foldl_terms)
  also have "\<dots> = Vec (map (poly_eval (c # T')) X)"
    by (simp add: poly_eval_def sum.lessThan_Suc_shift del: sum.lessThan_Suc)
  finally show ?thesis using Cons by simp
qed

text \<open>
  In exact arithmetic: for coefficients \<open>T\<close> of length \<open>d + 1\<close> and evaluation points of
  any length, the evaluator returns an array as long as the points whose \<open>i\<close>-th entry is
  the sum over \<open>k = 0..d\<close> of \<open>T[k] * X_eval[i]^k\<close>.
\<close>

lemma evaluator_formula:
  assumes "length T = d + 1"
  shows "\<exists>out. generalised_linear_model X_eval T = Vec out \<and> length out = length X_eval
           \<and> (\<forall>i<length X_eval. out ! i = (\<Sum>k\<le>d. T ! k * X_eval ! i ^ k))"
proof -
  from assms have ne: "T \<noteq> []" by auto
  have "{..<length T} = {..d}" using assms by auto
  then have "poly_eval T x = (\<Sum>k\<le>d. T ! k * x ^ k)" for x
    by (simp add: poly_eval_def)
  then show ?thesis using ne by (simp add: glm_closed_form)
qed

lemma evaluator_formula_example:
  "(\<exists>out. generalised_linear_model [2, 3] [1, 2, 1] = Vec out \<and> length out = 2
      \<and> out ! 0 = 9 \<and> out ! 1 = 16)
   \<and> (\<exists>out. generalised_linear_model [] [1, 2, 1] = Vec out \<and> length out = 0)
   \<and> (\<exists>out. generalised_linear_model [2, 3] [5] = Vec out \<and> length out = 2
      \<and> out ! 0 = 5 \<and> out ! 1 = 5)"
  using evaluator_formula[of "[1, 2, 1]" 2 "[2, 3]"] evaluator_formula[of "[1, 2, 1]" 2 "[]"]
    evaluator_formula[of "[5]" 0 "[2, 3]"]
  by (simp add: numeral_2_eq_2 numeral_3_eq_3 less_Suc_eq all_conj_distrib atMost_Suc)

text \<open>
  In exact arithmetic the evaluator is linear in the coefficients.
\<close>

lemma evaluator_linear:
  assumes "length theta1 = length theta2"
  shows "generalised_linear_model X (map2 (+) (map (\<lambda>t. a * t) theta1) (map (\<lambda>t. b * t) theta2))
         = py_add (py_scale a (generalised_linear_model X theta1))
                  (py_scale b (generalised_linear_model X theta2))"
proof (cases "theta1 = []")
  case True
  with assms show ?thesis by (simp add: glm_closed_form)
next
  case False
  let ?t = "map2 (+) (map (\<lambda>t. a * t) theta1) (map (\<lambda>t. b * t) theta2)"
  have len: "length ?t = length theta1" using assms by simp
  have ne: "theta2 \<noteq> []" "?t \<noteq> []" using False assms by auto
  have pe: "poly_eval ?t x = a * poly_eval theta1 x + b * poly_eval theta2 x" for x
  proof -
    have "poly_eval ?t x = (\<Sum>k<length theta1. (a * theta1 ! k + b * theta2 ! k) * x ^ k)"
      unfolding poly_eval_def len using assms by (intro sum.cong) simp_all
    also have "\<dots> = (\<Sum>k<length theta1. a * (theta1 ! k * x ^ k) + b * (theta2 ! k * x ^ k))"
      by (intro sum.cong) (simp_all add: algebra_simps)
    also have "\<dots> = a * poly_eval theta1 x + b * poly_eval theta2 x"
      using assms by (simp add: poly_eval_def sum.distrib sum_distrib_left)
    finally show ?thesis .
  qed
  have "map2 (+) (map (\<lambda>y. a * y) (map (poly_eval theta1) X))
                 (map (\<lambda>y. b * y) (map (poly_eval theta2) X))
        = map (poly_eval ?t) X"
    by (induction X) (simp_all add: pe)
  then show ?thesis using False ne by (simp add: glm_closed_form)
qed

lemma evaluator_linear_example:
  "generalised_linear_model [2, 3] (map2 (+) (map (\<lambda>t. 2 * t) [1, 0, 1]) (map (\<lambda>t. 3 * t) [0, 1, 1]))
     = py_add (py_scale 2 (generalised_linear_model [2, 3] [1, 0, 1]))
              (py_scale 3 (generalised_linear_model [2, 3] [0, 1, 1]))
   \<and> generalised_linear_model [2, 3] [1, 0, 1] = Vec [5, 10]
   \<and> generalised_linear_model [2, 3] [0, 1, 1] = Vec [6, 12]
   \<and> generalised_linear_model [2, 3] [2, 3, 5] = Vec [28, 56]"
  using evaluator_linear[of "[1, 0, 1]" "[0, 1, 1]" "[2, 3]" 2 3]
  by (simp add: generalised_linear_model_def py_sum_def enumerate_eq_zip)

section \<open>Properties of the formatter\<close>

lemmas print_defs = print_polynomial_def format_f_def round_half_even_def str_nat.simps
  digit_char_def strip_zeros.simps py_index_def

text \<open>The example of the specification, at precision 2.\<close>

lemma print_polynomial_example:
  "print_polynomial [1, 0, -2.5] 2 = Inr ''1.0*x^0 + 0.0*x^1 + -2.5*x^2''"
  by (simp add: print_defs numeral_2_eq_2)

text \<open>
  For a precision \<open>p > 0\<close> the formatted coefficient has a decimal point, the loop stops
  in front of it, and the result is the text of the specification.
\<close>

lemma format_f_parts:
  "0 < p \<Longrightarrow> format_f (int p) x = Inr (integer_text p x @ ''.'' @ fraction_digits p x)"
  by (simp add: format_f_def integer_text_def fraction_digits_def Let_def)

lemma digit_char_not_point: "k < 10 \<Longrightarrow> digit_char k \<noteq> CHR ''.''"
proof -
  assume "k < 10"
  then have "''0123456789'' ! k \<in> set ''0123456789''" by (intro nth_mem) simp
  then show ?thesis unfolding digit_char_def by auto
qed

lemma fraction_digits_no_point: "CHR ''.'' \<notin> set (fraction_digits p x)"
proof
  assume "CHR ''.'' \<in> set (fraction_digits p x)"
  then obtain k where "CHR ''.'' = digit_char (k mod 10)"
    unfolding fraction_digits_def by auto
  moreover have "k mod 10 < 10" by simp
  ultimately show False using digit_char_not_point[of "k mod 10"] by simp
qed

lemma fraction_digits_nonempty: "0 < p \<Longrightarrow> fraction_digits p x \<noteq> []"
  by (simp add: fraction_digits_def)

lemma strip_zeros_step:
  assumes "last s = CHR ''0''" "2 \<le> length s" "s ! (length s - 2) \<noteq> CHR ''.''"
  shows "strip_zeros s = strip_zeros (butlast s)"
proof -
  have "py_index (length s) (- 2) = Inr (length s - 2)"
    using assms(2) by (simp add: py_index_def nat_diff_distrib)
  moreover have "s \<noteq> []" using assms(2) by auto
  ultimately show ?thesis
    using assms(1,3) by (subst strip_zeros.simps) simp
qed

lemma strip_zeros_fraction:
  assumes "CHR ''.'' \<notin> set (d # ds)"
  shows "strip_zeros (pre @ ''.'' @ d # ds) = Inr (pre @ ''.'' @ strip_fraction (d # ds))"
  using assms
proof (induction ds rule: rev_induct)
  case Nil
  have "py_index (length (pre @ ''.'' @ [d])) (- 2) = Inr (length pre)"
    by (simp add: py_index_def)
  then show ?case
    by (subst strip_zeros.simps) (simp add: nth_append)
next
  case (snoc c ds)
  let ?s = "pre @ ''.'' @ d # ds @ [c]"
  show ?case
  proof (cases "c = CHR ''0''")
    case False
    then show ?thesis by (subst strip_zeros.simps) simp
  next
    case True
    have pos: "length ?s - 2 = length pre + length ds + 1" by simp
    have "?s ! (length pre + length ds + 1) = (d # ds) ! length ds"
      using nth_append[of "d # ds" "[c]" "length ds"] by (simp add: nth_append)
    also have "\<dots> = last (d # ds)"
      by (metis last_conv_nth length_Cons diff_Suc_1 list.distinct(1))
    also have "\<dots> \<noteq> CHR ''.''"
      using snoc.prems by (metis last_in_set list.distinct(1) set_ConsD set_append Un_iff list.set_intros(1,2) append_Cons)
    finally have np: "?s ! (length ?s - 2) \<noteq> CHR ''.''" unfolding pos .
    have bl: "butlast ?s = pre @ ''.'' @ d # ds"
      by (simp add: butlast_append)
    have "strip_zeros ?s = strip_zeros (butlast ?s)"
      by (rule strip_zeros_step[OF _ _ np]) (simp_all add: True)
    also have "\<dots> = strip_zeros (pre @ ''.'' @ d # ds)" unfolding bl ..
    also have "\<dots> = Inr (pre @ ''.'' @ strip_fraction (d # ds))"
      using snoc by simp
    finally show ?thesis using True by simp
  qed
qed

lemma strip_zeros_coefficient:
  assumes "0 < p"
  shows "strip_zeros (acc @ integer_text p x @ ''.'' @ fraction_digits p x)
           = Inr (acc @ coefficient_text p x)"
proof -
  obtain d ds where f: "fraction_digits p x = d # ds"
    using fraction_digits_nonempty[OF assms, of x] by (cases "fraction_digits p x") auto
  have "CHR ''.'' \<notin> set (d # ds)"
    using fraction_digits_no_point[of p x] unfolding f .
  from strip_zeros_fraction[OF this, of "acc @ integer_text p x"]
  show ?thesis by (simp add: coefficient_text_def f)
qed

lemma join_plus_Cons:
  "join_plus (t # ts) = t @ (if ts = [] then [] else '' + '') @ join_plus ts"
  by (cases ts) simp_all

lemma print_loop_text:
  assumes "0 < p" "i + length cs = n"
  shows "print_loop n (int p) i cs acc = Inr (acc @ polynomial_text p i cs)"
  using assms(2)
proof (induction cs arbitrary: i acc)
  case Nil
  then show ?case by (simp add: polynomial_text_def)
next
  case (Cons c cs)
  let ?t = "coefficient_text p c @ ''*x^'' @ str_nat i"
  let ?sep = "if cs \<noteq> [] then '' + '' else []"
  have last: "(i \<noteq> n - 1) = (cs \<noteq> [])" using Cons.prems by auto
  have next_i: "(i + 1) + length cs = n" using Cons.prems by simp
  have "print_loop n (int p) i (c # cs) acc
        = print_loop n (int p) (i + 1) cs (acc @ ?t @ ?sep)"
    using format_f_parts[OF assms(1), of c] strip_zeros_coefficient[OF assms(1), of acc c] last
    by simp
  also have "\<dots> = Inr ((acc @ ?t @ ?sep) @ polynomial_text p (i + 1) cs)"
    by (rule Cons.IH[OF next_i])
  also have "(acc @ ?t @ ?sep) @ polynomial_text p (i + 1) cs
             = acc @ polynomial_text p i (c # cs)"
    by (cases cs) (simp_all add: polynomial_text_def join_plus_Cons)
  finally show ?case .
qed

lemma print_polynomial_positive_precision:
  assumes "0 < p"
  shows "print_polynomial theta (int p) = Inr (polynomial_text p 0 theta)"
  using print_loop_text[OF assms, of 0 theta "length theta" "[]"]
  by (simp add: print_polynomial_def)

text \<open>
  C6. At precision 0 the formatted coefficient has no decimal point, and the stripping
  loop, which stops only in front of a point, removes significant zeros: the coefficient
  10 is printed as 1. The specification (every coefficient printed to \<open>p\<close> fractional
  digits, for every precision) asks for \<open>10*x^0\<close>.
\<close>

theorem precision_zero_drops_digit:
  "print_polynomial [10] 0 = Inr ''1*x^0''"
  by (simp add: print_defs)

text \<open>
  C10. \<open>print_polynomial\<close> is not total: at precision 0, when the first coefficient is
  formatted as the single character \<open>0\<close>, the loop reads position \<open>-2\<close> of a string of
  length 1 and the call raises \<open>IndexError\<close>.
\<close>

theorem print_polynomial_index_error:
  assumes "format_f 0 c = Inr ''0''"
  shows "print_polynomial (c # cs) 0 = Inl IndexError"
proof -
  have "strip_zeros ''0'' = Inl IndexError"
    by (simp add: strip_zeros.simps py_index_def)
  then show ?thesis
    using assms by (simp add: print_polynomial_def)
qed

theorem print_polynomial_index_error_witness:
  "format_f 0 0 = Inr ''0'' \<and> print_polynomial [0] 0 = Inl IndexError
   \<and> format_f 0 (1/4) = Inr ''0'' \<and> print_polynomial [1/4, 3] 0 = Inl IndexError"
proof -
  have f: "format_f 0 0 = Inr ''0''" "format_f 0 (1/4) = Inr ''0''"
    by (simp_all add: format_f_def round_half_even_def str_nat.simps digit_char_def)
  show ?thesis
    using f print_polynomial_index_error[OF f(1), of "[]"]
      print_polynomial_index_error[OF f(2), of "[3]"]
    by simp
qed

section \<open>Properties of the solver in exact arithmetic\<close>

lemma dot_sum: "length u = length v \<Longrightarrow> dot u v = (\<Sum>i<length u. u ! i * v ! i)"
  by (simp add: dot_def sum_list_sum_nth atLeast0LessThan)

lemma mat_nth: "mat r c A \<Longrightarrow> i < r \<Longrightarrow> length (A ! i) = c"
  by (simp add: mat_def list_all_length)

lemma mat_length: "mat r c A \<Longrightarrow> length A = r"
  by (simp add: mat_def)

lemma matvec_nth: "i < length A \<Longrightarrow> matvec A v ! i = dot (A ! i) v"
  by (simp add: matvec_def)

lemma length_matvec: "length (matvec A v) = length A"
  by (simp add: matvec_def)

lemma matmul_nth:
  "i < length A \<Longrightarrow> j < c \<Longrightarrow> matmul c A B ! i ! j = dot (A ! i) (map (\<lambda>r. r ! j) B)"
  by (simp add: matmul_def)

lemma mat_matmul: "mat (length A) c (matmul c A B)"
  by (simp add: mat_def matmul_def list_all_iff)

lemma mat_vander: "mat (length X) n (vander X n)"
  by (simp add: mat_def vander_def list_all_iff)

lemma vander_nth: "i < length X \<Longrightarrow> k < n \<Longrightarrow> vander X n ! i ! k = X ! i ^ k"
  by (simp add: vander_def)

lemma mat_transpose: "mat c (length A) (transpose_m c A)"
  by (simp add: mat_def transpose_m_def list_all_iff)

lemma transpose_nth: "j < c \<Longrightarrow> i < length A \<Longrightarrow> transpose_m c A ! j ! i = A ! i ! j"
  by (simp add: transpose_m_def)

lemma matmul_entry:
  assumes "mat r n P" "mat n c Q" "i < r" "j < c"
  shows "matmul c P Q ! i ! j = (\<Sum>l<n. P ! i ! l * Q ! l ! j)"
proof -
  have "length (P ! i) = n" "length Q = n" "length P = r"
    using assms by (simp_all add: mat_nth mat_length)
  then show ?thesis
    using assms(3,4) by (simp add: matmul_nth dot_sum)
qed

lemma matvec_entry:
  assumes "mat r n P" "length v = n" "i < r"
  shows "matvec P v ! i = (\<Sum>l<n. P ! i ! l * v ! l)"
proof -
  have "length (P ! i) = n" "length P = r"
    using assms by (simp_all add: mat_nth mat_length)
  then show ?thesis
    using assms by (simp add: matvec_nth dot_sum)
qed

lemma matvec_matmul:
  assumes "mat r n P" "mat n c Q" "length v = c"
  shows "matvec (matmul c P Q) v = matvec P (matvec Q v)"
proof (rule nth_equalityI)
  show "length (matvec (matmul c P Q) v) = length (matvec P (matvec Q v))"
    by (simp add: matvec_def matmul_def)
next
  fix i assume "i < length (matvec (matmul c P Q) v)"
  then have i: "i < r" using assms(1) by (simp add: matvec_def matmul_def mat_def)
  have lenP: "length P = r" using assms(1) by (simp add: mat_def)
  have m: "mat r c (matmul c P Q)" using mat_matmul[of P c Q] lenP by simp
  have "matvec (matmul c P Q) v ! i = (\<Sum>j<c. matmul c P Q ! i ! j * v ! j)"
    using matvec_entry[OF m assms(3) i] .
  also have "\<dots> = (\<Sum>j<c. (\<Sum>l<n. P ! i ! l * Q ! l ! j) * v ! j)"
    using matmul_entry[OF assms(1,2) i] by simp
  also have "\<dots> = (\<Sum>j<c. \<Sum>l<n. P ! i ! l * (Q ! l ! j * v ! j))"
    by (simp add: sum_distrib_right mult.assoc)
  also have "\<dots> = (\<Sum>l<n. \<Sum>j<c. P ! i ! l * (Q ! l ! j * v ! j))"
    by (rule sum.swap)
  also have "\<dots> = (\<Sum>l<n. P ! i ! l * (\<Sum>j<c. Q ! l ! j * v ! j))"
    by (simp add: sum_distrib_left)
  also have "\<dots> = (\<Sum>l<n. P ! i ! l * matvec Q v ! l)"
    using matvec_entry[OF assms(2,3)] by simp
  also have "\<dots> = matvec P (matvec Q v) ! i"
    using matvec_entry[OF assms(1) _ i, of "matvec Q v"] assms(2)
    by (simp add: length_matvec mat_length)
  finally show "matvec (matmul c P Q) v ! i = matvec P (matvec Q v) ! i" .
qed

lemma matvec_identity:
  assumes "length v = n"
  shows "matvec (identity n) v = v"
proof (rule nth_equalityI)
  show "length (matvec (identity n) v) = length v"
    using assms by (simp add: matvec_def identity_def)
next
  fix i assume "i < length (matvec (identity n) v)"
  then have i: "i < n" by (simp add: matvec_def identity_def)
  have m: "mat n n (identity n)" by (simp add: mat_def identity_def list_all_iff)
  have "matvec (identity n) v ! i = (\<Sum>l<n. identity n ! i ! l * v ! l)"
    using matvec_entry[OF m assms i] .
  also have "\<dots> = (\<Sum>l<n. if l = i then v ! l else 0)"
    using i by (intro sum.cong) (auto simp: identity_def)
  also have "\<dots> = v ! i" using i by simp
  finally show "matvec (identity n) v ! i = v ! i" .
qed

lemma mat_normal_matrix: "mat (d + 1) (d + 1) (normal_matrix X d)"
  using mat_matmul[of "transpose_m (d + 1) (vander X (d + 1))" "d + 1" "vander X (d + 1)"]
  by (simp add: normal_matrix_def transpose_m_def)

lemma lss_with_inverse:
  assumes len: "length Y = length X"
    and inv: "linalg_inv (normal_matrix X d) = Inr B"
    and B: "is_inverse (d + 1) B (normal_matrix X d)"
  shows "least_squares_solution linalg_inv X Y d
           = Inr (matvec B (matvec (transpose_m (d + 1) (vander X (d + 1))) Y))"
    and "matvec (normal_matrix X d) (matvec B (matvec (transpose_m (d + 1) (vander X (d + 1))) Y))
           = matvec (transpose_m (d + 1) (vander X (d + 1))) Y"
proof -
  let ?M = "vander X (d + 1)"
  let ?MT = "transpose_m (d + 1) ?M"
  have mB: "mat (d + 1) (d + 1) B" using B by (simp add: is_inverse_def)
  have mMT: "mat (d + 1) (length X) ?MT"
    using mat_transpose[of "d + 1" ?M] by (simp add: vander_def)
  have "least_squares_solution linalg_inv X Y d = Inr (matvec (matmul (length X) B ?MT) Y)"
    using inv len by (simp add: least_squares_solution_def normal_matrix_def Let_def)
  also have "matvec (matmul (length X) B ?MT) Y = matvec B (matvec ?MT Y)"
    using matvec_matmul[OF mB mMT len] .
  finally show "least_squares_solution linalg_inv X Y d = Inr (matvec B (matvec ?MT Y))" .
  have lv: "length (matvec ?MT Y) = d + 1"
    by (simp add: length_matvec transpose_m_def)
  have "matvec (normal_matrix X d) (matvec B (matvec ?MT Y))
        = matvec (matmul (d + 1) (normal_matrix X d) B) (matvec ?MT Y)"
    using matvec_matmul[OF mat_normal_matrix mB lv] by simp
  also have "\<dots> = matvec ?MT Y"
    using B lv by (simp add: is_inverse_def matvec_identity)
  finally show "matvec (normal_matrix X d) (matvec B (matvec ?MT Y)) = matvec ?MT Y" .
qed


lemma glm_matvec:
  assumes "T \<noteq> []"
  shows "generalised_linear_model X T = Vec (matvec (vander X (length T)) T)"
proof -
  have "poly_eval T x = dot (map (\<lambda>k. x ^ k) [0..<length T]) T" for x
    by (simp add: poly_eval_def dot_sum mult.commute)
  then show ?thesis
    using assms by (simp add: glm_closed_form matvec_def vander_def comp_def)
qed

lemma underdetermined_kernel:
  fixes a :: "'i \<Rightarrow> 'j \<Rightarrow> real"
  assumes "finite I" "finite J" "card I < card J"
  shows "\<exists>v. (\<exists>j\<in>J. v j \<noteq> 0) \<and> (\<forall>i\<in>I. (\<Sum>j\<in>J. a i j * v j) = 0)"
  using assms
proof (induction I arbitrary: J a rule: finite_induct)
  case empty
  then have "J \<noteq> {}" by auto
  then obtain j0 where "j0 \<in> J" by blast
  then have "\<exists>j\<in>J. (\<lambda>j. if j = j0 then 1 else (0::real)) j \<noteq> 0" by auto
  then show ?case by (intro exI[of _ "\<lambda>j. if j = j0 then 1 else (0::real)"]) simp
next
  case (insert m I)
  from insert.prems insert.hyps have cardI: "Suc (card I) < card J" by simp
  show ?case
  proof (cases "\<forall>j\<in>J. a m j = 0")
    case True
    from cardI have "card I < card J" by simp
    from insert.IH[OF insert.prems(1) this, of a] obtain v where
      v: "\<exists>j\<in>J. v j \<noteq> 0" "\<forall>i\<in>I. (\<Sum>j\<in>J. a i j * v j) = 0" by blast
    have "(\<Sum>j\<in>J. a m j * v j) = 0" using True by simp
    with v show ?thesis by blast
  next
    case False
    then obtain k where k: "k \<in> J" "a m k \<noteq> 0" by blast
    let ?J = "J - {k}"
    let ?a = "\<lambda>i j. a i j - a i k * a m j / a m k"
    have finJ: "finite ?J" using insert.prems(1) by simp
    have "card ?J = card J - 1" using k(1) insert.prems(1) by simp
    with cardI have "card I < card ?J" by simp
    from insert.IH[OF finJ this, of ?a] obtain w where
      w: "\<exists>j\<in>?J. w j \<noteq> 0" "\<forall>i\<in>I. (\<Sum>j\<in>?J. ?a i j * w j) = 0" by blast
    define S where "S = (\<Sum>j\<in>?J. a m j * w j)"
    define v where "v = (\<lambda>j. if j = k then - S / a m k else w j)"
    have split: "(\<Sum>j\<in>J. a i j * v j) = a i k * v k + (\<Sum>j\<in>?J. a i j * w j)" for i
    proof -
      have "(\<Sum>j\<in>J. a i j * v j) = a i k * v k + (\<Sum>j\<in>?J. a i j * v j)"
        using insert.prems(1) k(1) by (rule sum.remove)
      moreover have "(\<Sum>j\<in>?J. a i j * v j) = (\<Sum>j\<in>?J. a i j * w j)"
        by (intro sum.cong) (auto simp: v_def)
      ultimately show ?thesis by simp
    qed
    have nz: "\<exists>j\<in>J. v j \<noteq> 0" using w(1) by (auto simp: v_def)
    have vk: "v k = - S / a m k" by (simp add: v_def)
    have eqm: "(\<Sum>j\<in>J. a m j * v j) = 0"
      unfolding split S_def[symmetric] vk using k(2) by simp
    have eqi: "(\<Sum>j\<in>J. a i j * v j) = 0" if "i \<in> I" for i
    proof -
      have "(\<Sum>j\<in>?J. ?a i j * w j)
            = (\<Sum>j\<in>?J. a i j * w j) - (a i k / a m k) * S"
        by (simp add: S_def sum_distrib_left sum_subtractf algebra_simps)
      with w(2) that have "(\<Sum>j\<in>?J. a i j * w j) = (a i k / a m k) * S" by simp
      then show ?thesis unfolding split vk using k(2) by simp
    qed
    from nz eqm eqi show ?thesis by blast
  qed
qed

lemmas mat_defs = normal_matrix_def matmul_def transpose_m_def vander_def dot_def
  identity_def is_inverse_def mat_def matvec_def

lemma upt_0_numeral: "[0..<numeral k] = 0 # [Suc 0..<numeral k]"
  by (simp add: upt_conv_Cons)

lemma upt_Suc_numeral: 
  "[Suc m..<numeral k] = (if Suc m < numeral k then Suc m # [Suc (Suc m)..<numeral k] else [])"
  by (simp add: upt_conv_Cons)

lemma mat_eqI:
  assumes "mat r c P" "mat r c Q" "\<And>i j. i < r \<Longrightarrow> j < c \<Longrightarrow> P ! i ! j = Q ! i ! j"
  shows "P = Q"
proof (rule nth_equalityI)
  show "length P = length Q" using assms(1,2) by (simp add: mat_def)
next
  fix i assume "i < length P"
  then have i: "i < r" using assms(1) by (simp add: mat_def)
  show "P ! i = Q ! i"
  proof (rule nth_equalityI)
    show "length (P ! i) = length (Q ! i)" using assms(1,2) i by (simp add: mat_nth)
  next
    fix j assume "j < length (P ! i)"
    then have "j < c" using assms(1) i by (simp add: mat_nth)
    then show "P ! i ! j = Q ! i ! j" using assms(3) i by simp
  qed
qed

lemma mat_identity: "mat n n (identity n)"
  by (simp add: mat_def identity_def list_all_iff)

lemma identity_nth: "i < n \<Longrightarrow> j < n \<Longrightarrow> identity n ! i ! j = (if i = j then 1 else 0)"
  by (simp add: identity_def)

lemma square_injective_invertible:
  assumes A: "mat n n A"
    and inj: "\<And>v. length v = n \<Longrightarrow> matvec A v = replicate n 0 \<Longrightarrow> v = replicate n 0"
  shows "\<exists>B. is_inverse n B A"
proof -
  define a where "a = (\<lambda>i j. A ! i ! j)"
  have injf: "\<forall>j<n. v j = 0" if "\<forall>i<n. (\<Sum>j<n. a i j * v j) = 0" for v
  proof -
    let ?v = "map v [0..<n]"
    have "matvec A ?v = replicate n 0"
    proof (rule nth_equalityI)
      show "length (matvec A ?v) = length (replicate n (0::real))"
        using A by (simp add: length_matvec mat_def)
    next
      fix i assume "i < length (matvec A ?v)"
      then have i: "i < n" using A by (simp add: length_matvec mat_def)
      have "matvec A ?v ! i = (\<Sum>l<n. A ! i ! l * ?v ! l)"
        using matvec_entry[OF A _ i, of ?v] by simp
      also have "\<dots> = (\<Sum>l<n. a i l * v l)"
        by (intro sum.cong) (simp_all add: a_def)
      also have "\<dots> = 0" using that i by simp
      finally show "matvec A ?v ! i = replicate n 0 ! i" using i by simp
    qed
    then have "?v = replicate n 0" using inj[of ?v] by simp
    then have e: "?v ! j = replicate n (0::real) ! j" for j by simp
    show ?thesis
    proof (intro allI impI)
      fix j assume "j < n"
      then show "v j = 0" using e[of j] by simp
    qed
  qed
  have surj: "\<exists>x. \<forall>i<n. (\<Sum>j<n. a i j * x j) = b i" for b
  proof -
    let ?c = "\<lambda>i j. if j < n then a i j else b i"
    have "card {..<n} < card {..n}" by simp
    from underdetermined_kernel[OF _ _ this, of ?c] obtain v where
      nz: "\<exists>j\<in>{..n}. v j \<noteq> 0" and eq: "\<forall>i\<in>{..<n}. (\<Sum>j\<in>{..n}. ?c i j * v j) = 0"
      by auto
    have eq': "(\<Sum>j<n. a i j * v j) + b i * v n = 0" if "i < n" for i
    proof -
      have "(\<Sum>j\<in>{..n}. ?c i j * v j) = (\<Sum>j<n. ?c i j * v j) + ?c i n * v n"
        by (simp add: lessThan_Suc_atMost[symmetric])
      also have "(\<Sum>j<n. ?c i j * v j) = (\<Sum>j<n. a i j * v j)"
        by (intro sum.cong) simp_all
      finally show ?thesis using eq that by simp
    qed
    have vn: "v n \<noteq> 0"
    proof
      assume z: "v n = 0"
      then have "\<forall>i<n. (\<Sum>j<n. a i j * v j) = 0" using eq' by simp
      then have "\<forall>j<n. v j = 0" by (rule injf)
      with z have "\<forall>j\<le>n. v j = 0" by (simp add: le_less)
      with nz show False by auto
    qed
    have "(\<Sum>j<n. a i j * (- v j / v n)) = b i" if "i < n" for i
    proof -
      have "(\<Sum>j<n. a i j * (- v j / v n)) = - (\<Sum>j<n. a i j * v j) / v n"
        by (simp add: sum_divide_distrib sum_negf)
      also have "\<dots> = b i" using eq'[OF that] vn by (simp add: field_simps)
      finally show ?thesis .
    qed
    then have "\<forall>i<n. (\<Sum>j<n. a i j * (- v j / v n)) = b i" by simp
    then show ?thesis by (rule exI[of _ "\<lambda>j. - v j / v n"])
  qed
  have "\<forall>k. \<exists>x. \<forall>i<n. (\<Sum>j<n. a i j * x j) = (if i = k then 1 else 0)"
    by (intro allI surj)
  from choice[OF this]
  obtain r where r: "\<forall>k. \<forall>i<n. (\<Sum>j<n. a i j * r k j) = (if i = k then 1 else 0)"
    by blast
  define b where "b = (\<lambda>j k. r k j)"
  have right: "(\<Sum>j<n. a i j * b j k) = (if i = k then 1 else 0)" if "i < n" for i k
    using r that by (simp add: b_def)
  have left: "(\<Sum>j<n. b i j * a j k) = (if i = k then 1 else 0)" if "i < n" "k < n" for i k
  proof -
    define w where "w = (\<lambda>i. (\<Sum>j<n. b i j * a j k) - (if i = k then 1 else 0))"
    have "(\<Sum>i<n. a l i * w i) = 0" if l: "l < n" for l
    proof -
      have d: "(\<Sum>i<n. (if i = k then a l i else 0)) = a l k"
        using \<open>k < n\<close> by simp
      have d': "(\<Sum>j<n. (if l = j then a j k else 0)) = a l k"
        using l by simp
      have "(\<Sum>i<n. a l i * w i)
            = (\<Sum>i<n. (\<Sum>j<n. a l i * b i j * a j k) - (if i = k then a l i else 0))"
        by (intro sum.cong) (simp_all add: w_def right_diff_distrib sum_distrib_left mult.assoc)
      also have "\<dots> = (\<Sum>i<n. \<Sum>j<n. a l i * b i j * a j k) - a l k"
        by (simp only: sum_subtractf d)
      also have "(\<Sum>i<n. \<Sum>j<n. a l i * b i j * a j k) = (\<Sum>j<n. \<Sum>i<n. a l i * b i j * a j k)"
        by (rule sum.swap)
      also have "\<dots> = (\<Sum>j<n. (\<Sum>i<n. a l i * b i j) * a j k)"
        by (simp only: sum_distrib_right)
      also have "\<dots> = (\<Sum>j<n. (if l = j then a j k else 0))"
        by (intro sum.cong) (simp_all add: right[OF l])
      also have "\<dots> = a l k" by (rule d')
      finally show ?thesis by simp
    qed
    then have "\<forall>i<n. w i = 0" using injf[of w] by simp
    with that(1) show ?thesis by (simp add: w_def)
  qed
  define B where "B = map (\<lambda>i. map (\<lambda>k. b i k) [0..<n]) [0..<n]"
  have mB: "mat n n B" by (simp add: B_def mat_def list_all_iff)
  have Bnth: "B ! i ! j = b i j" if "i < n" "j < n" for i j
    using that by (simp add: B_def)
  have lenA: "length A = n" using A by (simp add: mat_def)
  have "matmul n B A = identity n"
  proof (rule mat_eqI[where r = n and c = n])
    show "mat n n (matmul n B A)" using mat_matmul[of B n A] mB by (simp add: mat_def)
    show "mat n n (identity n)" by (rule mat_identity)
    fix i j assume ij: "i < n" "j < n"
    have "matmul n B A ! i ! j = (\<Sum>l<n. B ! i ! l * A ! l ! j)"
      using matmul_entry[OF mB A ij] .
    also have "\<dots> = (\<Sum>l<n. b i l * a l j)"
      using ij by (intro sum.cong) (simp_all add: Bnth a_def)
    also have "\<dots> = identity n ! i ! j" using left[OF ij] ij by (simp add: identity_nth)
    finally show "matmul n B A ! i ! j = identity n ! i ! j" .
  qed
  moreover have "matmul n A B = identity n"
  proof (rule mat_eqI[where r = n and c = n])
    show "mat n n (matmul n A B)" using mat_matmul[of A n B] lenA by simp
    show "mat n n (identity n)" by (rule mat_identity)
    fix i j assume ij: "i < n" "j < n"
    have "matmul n A B ! i ! j = (\<Sum>l<n. A ! i ! l * B ! l ! j)"
      using matmul_entry[OF A mB ij] .
    also have "\<dots> = (\<Sum>l<n. a i l * b l j)"
      using ij by (intro sum.cong) (simp_all add: Bnth a_def)
    also have "\<dots> = identity n ! i ! j" using right[OF ij(1)] ij by (simp add: identity_nth)
    finally show "matmul n A B ! i ! j = identity n ! i ! j" .
  qed
  ultimately show ?thesis using mB by (auto simp: is_inverse_def)
qed

lemma matvec_zero:
  assumes P: "mat r c P"
  shows "matvec P (replicate c 0) = replicate r 0"
proof (rule nth_equalityI)
  show "length (matvec P (replicate c 0)) = length (replicate r (0::real))"
    using P by (simp add: length_matvec mat_def)
next
  fix i assume "i < length (matvec P (replicate c 0))"
  then have i: "i < r" using P by (simp add: length_matvec mat_def)
  have "matvec P (replicate c 0) ! i = (\<Sum>l<c. P ! i ! l * replicate c 0 ! l)"
    using matvec_entry[OF P _ i, of "replicate c 0"] by simp
  also have "\<dots> = 0" by (intro sum.neutral) simp
  finally show "matvec P (replicate c 0) ! i = replicate r 0 ! i"
    using i by simp
qed

lemma normal_kernel:
  assumes M: "mat N n M" and v: "length v = n"
    and z: "matvec (matmul n (transpose_m n M) M) v = replicate n 0"
  shows "matvec M v = replicate N 0"
proof -
  let ?MT = "transpose_m n M"
  let ?w = "matvec M v"
  have lenM: "length M = N" using M by (simp add: mat_def)
  have mMT: "mat n N ?MT" using mat_transpose[of n M] lenM by simp
  have lw: "length ?w = N" by (simp add: length_matvec lenM)
  have "matvec ?MT ?w = replicate n 0"
    using matvec_matmul[OF mMT M v] z by simp
  then have zj: "matvec ?MT ?w ! j = 0" if "j < n" for j using that by simp
  have ent: "matvec ?MT ?w ! j = (\<Sum>i<N. M ! i ! j * ?w ! i)" if "j < n" for j
  proof -
    have "matvec ?MT ?w ! j = (\<Sum>i<N. ?MT ! j ! i * ?w ! i)"
      using matvec_entry[OF mMT lw that] .
    also have "\<dots> = (\<Sum>i<N. M ! i ! j * ?w ! i)"
      using that lenM by (intro sum.cong) (simp_all add: transpose_nth)
    finally show ?thesis .
  qed
  have "(\<Sum>i<N. ?w ! i * ?w ! i) = (\<Sum>i<N. (\<Sum>j<n. M ! i ! j * v ! j) * ?w ! i)"
    using matvec_entry[OF M v] by (intro sum.cong) simp_all
  also have "\<dots> = (\<Sum>i<N. \<Sum>j<n. v ! j * (M ! i ! j * ?w ! i))"
    by (intro sum.cong refl, subst sum_distrib_right) (simp add: mult_ac)
  also have "\<dots> = (\<Sum>j<n. \<Sum>i<N. v ! j * (M ! i ! j * ?w ! i))"
    by (rule sum.swap)
  also have "\<dots> = (\<Sum>j<n. v ! j * (\<Sum>i<N. M ! i ! j * ?w ! i))"
    by (simp only: sum_distrib_left)
  also have "\<dots> = (\<Sum>j<n. v ! j * 0)"
    by (intro sum.cong) (simp_all add: ent[symmetric] zj)
  finally have "(\<Sum>i<N. ?w ! i * ?w ! i) = 0" by simp
  then have "\<forall>i\<in>{..<N}. ?w ! i * ?w ! i = 0"
    by (subst (asm) sum_nonneg_eq_0_iff) simp_all
  then have "?w ! i = 0" if "i < N" for i using that by simp
  then show ?thesis
    using lw by (intro nth_equalityI) simp_all
qed

lemma full_rank_invertible:
  assumes "full_column_rank (d + 1) (vander X (d + 1))"
  shows "\<exists>B. is_inverse (d + 1) B (normal_matrix X d)"
proof (rule square_injective_invertible[OF mat_normal_matrix])
  fix v :: "real list"
  assume v: "length v = d + 1" and z: "matvec (normal_matrix X d) v = replicate (d + 1) 0"
  have "matvec (vander X (d + 1)) v = replicate (length X) 0"
    using normal_kernel[OF mat_vander v] z by (simp add: normal_matrix_def)
  then show "v = replicate (d + 1) 0"
    using assms v by (simp add: full_column_rank_def vander_def)
qed

lemma invertible_full_rank:
  assumes B: "is_inverse (d + 1) B (normal_matrix X d)"
  shows "full_column_rank (d + 1) (vander X (d + 1))"
  unfolding full_column_rank_def
proof (intro allI impI)
  fix v :: "real list"
  let ?M = "vander X (d + 1)"
  let ?MT = "transpose_m (d + 1) ?M"
  assume a: "length v = d + 1 \<and> matvec ?M v = replicate (length ?M) 0"
  then have v: "length v = d + 1" and z: "matvec ?M v = replicate (length X) 0"
    by (simp_all add: vander_def)
  have mB: "mat (d + 1) (d + 1) B" using B by (simp add: is_inverse_def)
  have mMT: "mat (d + 1) (length X) ?MT"
    using mat_transpose[of "d + 1" ?M] by (simp add: vander_def)
  have "matvec (normal_matrix X d) v = matvec ?MT (matvec ?M v)"
    using matvec_matmul[OF mMT mat_vander v] by (simp add: normal_matrix_def)
  also have "\<dots> = replicate (d + 1) 0"
    unfolding z by (rule matvec_zero[OF mMT])
  finally have "matvec B (matvec (normal_matrix X d) v) = matvec B (replicate (d + 1) 0)"
    by simp
  moreover have "matvec B (matvec (normal_matrix X d) v) = v"
    using matvec_matmul[OF mB mat_normal_matrix[of d X] v] B v
    by (simp add: is_inverse_def matvec_identity)
  moreover have "matvec B (replicate (d + 1) 0) = replicate (d + 1) 0"
    by (rule matvec_zero[OF mB])
  ultimately show "v = replicate (d + 1) 0" by simp
qed

lemma wide_matrix_kernel:
  assumes M: "mat N n M" and wide: "N < n"
  shows "\<exists>v. length v = n \<and> v \<noteq> replicate n 0 \<and> matvec M v = replicate N 0"
proof -
  from wide have "card {..<N} < card {..<n}" by simp
  from underdetermined_kernel[OF _ _ this, of "\<lambda>i j. M ! i ! j"]
  obtain v where nz: "\<exists>j\<in>{..<n}. v j \<noteq> 0"
    and eq: "\<forall>i\<in>{..<N}. (\<Sum>j\<in>{..<n}. M ! i ! j * v j) = 0"
    by auto
  let ?v = "map v [0..<n]"
  have lenM: "length M = N" using M by (simp add: mat_def)
  have "matvec M ?v = replicate N 0"
  proof (rule nth_equalityI)
    show "length (matvec M ?v) = length (replicate N (0::real))"
      by (simp add: length_matvec lenM)
  next
    fix i assume "i < length (matvec M ?v)"
    then have i: "i < N" by (simp add: length_matvec lenM)
    have "matvec M ?v ! i = (\<Sum>l<n. M ! i ! l * ?v ! l)"
      using matvec_entry[OF M _ i, of ?v] by simp
    also have "\<dots> = (\<Sum>l<n. M ! i ! l * v l)"
      by (intro sum.cong refl) simp
    also have "\<dots> = 0" using eq i by simp
    finally show "matvec M ?v ! i = replicate N 0 ! i"
      using i by simp
  qed
  moreover have "?v \<noteq> replicate n 0"
  proof
    assume "?v = replicate n 0"
    then have e: "?v ! j = replicate n (0::real) ! j" for j by simp
    from nz obtain j where j: "j < n" "v j \<noteq> 0" by auto
    then show False using e[of j] by simp
  qed
  ultimately show ?thesis by (intro exI[of _ ?v]) simp
qed

lemma full_rank_samples:
  assumes rank: "full_column_rank (d + 1) (vander X (d + 1))"
  shows "d + 1 \<le> length X"
proof (rule ccontr)
  assume "\<not> d + 1 \<le> length X"
  then have "length X < d + 1" by simp
  from wide_matrix_kernel[OF mat_vander this] obtain v where
    "length v = d + 1" "v \<noteq> replicate (d + 1) 0"
    "matvec (vander X (d + 1)) v = replicate (length X) 0" by blast
  with rank show False
    unfolding full_column_rank_def by (simp add: vander_def)
qed

lemma underdetermined_singular:
  assumes "length X \<le> d"
  shows "\<not> (\<exists>B. is_inverse (d + 1) B (normal_matrix X d))"
proof
  assume "\<exists>B. is_inverse (d + 1) B (normal_matrix X d)"
  then obtain B where "is_inverse (d + 1) B (normal_matrix X d)" by blast
  from full_rank_samples[OF invertible_full_rank[OF this]] assms show False by simp
qed

text \<open>
  In exact arithmetic: for \<open>X\<close> and \<open>Y\<close> of equal length and a design matrix \<open>M\<close> of full
  column rank (which forces \<open>length X \<ge> d + 1\<close>, lemma \<open>full_rank_samples\<close>), the solver
  returns \<open>theta = B (M\<^sup>T Y)\<close> for the inverse \<open>B\<close> of \<open>M\<^sup>T M\<close>, when \<open>np.linalg.inv\<close>
  returns an inverse of an invertible matrix.
\<close>

lemma least_squares_formula:
  assumes len: "length Y = length X"
    and rank: "full_column_rank (d + 1) (vander X (d + 1))"
    and inv: "returns_inverse (d + 1) linalg_inv (normal_matrix X d)"
  shows "\<exists>B theta. is_inverse (d + 1) B (normal_matrix X d)
           \<and> least_squares_solution linalg_inv X Y d = Inr theta
           \<and> theta = matvec B (matvec (transpose_m (d + 1) (vander X (d + 1))) Y)
           \<and> length theta = d + 1
           \<and> matvec (normal_matrix X d) theta = matvec (transpose_m (d + 1) (vander X (d + 1))) Y
           \<and> (\<forall>i<length X. \<forall>k\<le>d. vander X (d + 1) ! i ! k = X ! i ^ k)"
proof -
  from full_rank_invertible[OF rank] inv obtain B where
    B: "linalg_inv (normal_matrix X d) = Inr B" "is_inverse (d + 1) B (normal_matrix X d)"
    unfolding returns_inverse_def by blast
  let ?theta = "matvec B (matvec (transpose_m (d + 1) (vander X (d + 1))) Y)"
  have "length ?theta = d + 1" using B(2) by (simp add: length_matvec is_inverse_def mat_def)
  moreover have "\<forall>i<length X. \<forall>k\<le>d. vander X (d + 1) ! i ! k = X ! i ^ k"
    by (simp add: vander_nth)
  ultimately show ?thesis
    using lss_with_inverse[of Y X linalg_inv d B] len B by blast
qed

lemma normal_matrix_123: "normal_matrix [1, 2, 3] 1 = [[3, 6], [6, 14]]"
  by (simp add: mat_defs upt_0_numeral upt_Suc_numeral)

lemma inverse_123: "is_inverse 2 [[7/3, - 1], [- 1, 1/2]] [[3, 6], [6, 14]]"
  by (simp add: mat_defs upt_0_numeral upt_Suc_numeral)

lemma exact_inv_123: "exact_inv [[3, 6], [6, 14]] = Inr [[7/3, - 1], [- 1, 1/2]]"
  by (simp add: exact_inv_def drop_nth_def)

lemma least_squares_formula_example:
  "length [1, 2, 2 :: real] = length [1, 2, 3 :: real]
   \<and> full_column_rank 2 (vander [1, 2, 3] 2)
   \<and> returns_inverse 2 exact_inv (normal_matrix [1, 2, 3] 1)
   \<and> least_squares_solution exact_inv [1, 2, 3] [1, 2, 2] 1 = Inr [2/3, 1/2]"
proof -
  have i: "is_inverse 2 [[7/3, - 1], [- 1, 1/2]] (normal_matrix [1, 2, 3] 1)"
    unfolding normal_matrix_123 by (rule inverse_123)
  have rank: "full_column_rank 2 (vander [1, 2, 3] 2)"
    using invertible_full_rank[of 1 _ "[1, 2, 3]", unfolded one_add_one, OF i] .
  have e: "exact_inv (normal_matrix [1, 2, 3] 1) = Inr [[7/3, - 1], [- 1, 1/2]]"
    unfolding normal_matrix_123 by (rule exact_inv_123)
  have inv: "returns_inverse 2 exact_inv (normal_matrix [1, 2, 3] 1)"
    unfolding returns_inverse_def using e i by blast
  have len: "length [1, 2, 2 :: real] = length [1, 2, 3 :: real]" by simp
  from least_squares_formula[of "[1, 2, 2]" "[1, 2, 3]" 1 exact_inv, unfolded one_add_one,
      OF len rank inv]
  obtain B theta where
    B: "is_inverse 2 B (normal_matrix [1, 2, 3] 1)"
    and t: "least_squares_solution exact_inv [1, 2, 3] [1, 2, 2] 1 = Inr theta"
    and f: "theta = matvec B (matvec (transpose_m 2 (vander [1, 2, 3] 2)) [1, 2, 2])"
    by blast
  have "least_squares_solution exact_inv [1, 2, 3] [1, 2, 2] 1
          = Inr (matvec [[7/3, - 1], [- 1, 1/2]]
                   (matvec (transpose_m 2 (vander [1, 2, 3] 2)) [1, 2, 2]))"
    using lss_with_inverse(1)[of "[1, 2, 2]" "[1, 2, 3]" exact_inv 1, unfolded one_add_one,
        OF len e i] .
  also have "matvec [[7/3, - 1], [- 1, 1/2]]
               (matvec (transpose_m 2 (vander [1, 2, 3] 2)) [1, 2, 2]) = [2/3, 1/2]"
    by (simp add: mat_defs upt_0_numeral upt_Suc_numeral)
  finally have "theta = [2/3, 1/2]" using t by simp
  with len rank inv t show ?thesis by blast
qed







section \<open>Properties of the float64 evaluator\<close>

lemmas f64_defs = round_f64_def exponent_def expo_up.simps expo_down.simps pow2_def
  round_half_even_def

lemma foldl_terms_f64:
  "foldl py_add_f64 (VecF (map g X))
     (map (\<lambda>(degree, coeff). VecF (map (\<lambda>x. fmul coeff (power_f64 pw x degree)) X)) (enumerate n T))
   = VecF (map (\<lambda>x. foldl fadd (g x)
                 (map (\<lambda>(degree, coeff). fmul coeff (power_f64 pw x degree)) (enumerate n T))) X)"
proof (induction T arbitrary: n g)
  case Nil
  then show ?case by simp
next
  case (Cons c T)
  have "map2 fadd (map g X) (map (\<lambda>x. fmul c (power_f64 pw x n)) X)
        = map (\<lambda>x. fadd (g x) (fmul c (power_f64 pw x n))) X"
    by (induction X) simp_all
  then show ?case
    using Cons.IH[of "\<lambda>x. fadd (g x) (fmul c (power_f64 pw x n))" "Suc n"] by simp
qed

lemma enumerate_nth_map:
  "map (\<lambda>(k, c). f k c) (enumerate n T) = map (\<lambda>k. f (n + k) (T ! k)) [0..<length T]"
  by (rule nth_equalityI) (simp_all add: nth_enumerate_eq)

lemma glm_f64_closed_form:
  "generalised_linear_model_f64 pw X T =
     (if T = [] then ScalarF (Finite 0) else VecF (map (float_sum pw T) X))"
proof (cases T)
  case Nil
  then show ?thesis by (simp add: generalised_linear_model_f64_def py_sum_f64_def)
next
  case (Cons c T')
  let ?g = "\<lambda>x. fadd (Finite 0) (fmul c (power_f64 pw x 0))"
  have "generalised_linear_model_f64 pw X T =
     foldl py_add_f64 (VecF (map ?g X))
       (map (\<lambda>(degree, coeff). VecF (map (\<lambda>x. fmul coeff (power_f64 pw x degree)) X))
          (enumerate (Suc 0) T'))"
    unfolding Cons
    by (simp add: generalised_linear_model_f64_def py_sum_f64_def comp_def)
  also have "\<dots> = VecF (map (\<lambda>x. foldl fadd (?g x)
                 (map (\<lambda>(degree, coeff). fmul coeff (power_f64 pw x degree)) (enumerate (Suc 0) T'))) X)"
    by (rule foldl_terms_f64)
  also have "\<dots> = VecF (map (\<lambda>x. foldl fadd (Finite 0)
                 (map (\<lambda>(degree, coeff). fmul coeff (power_f64 pw x degree)) (enumerate 0 T))) X)"
    unfolding Cons by simp
  also have "\<dots> = VecF (map (float_sum pw T) X)"
    unfolding float_sum_def
    using enumerate_nth_map[of "\<lambda>k c. fmul c (power_f64 pw _ k)" 0 T] by simp
  finally show ?thesis using Cons by simp
qed

lemma float_sum_enumerate:
  "float_sum pw T x =
     foldl fadd (Finite 0) (map (\<lambda>(k, c). fmul c (power_f64 pw x k)) (enumerate 0 T))"
  unfolding float_sum_def
  using enumerate_nth_map[of "\<lambda>k c. fmul c (power_f64 pw x k)" 0 T] by simp

lemma exact_fold:
  assumes "exact_from pw x n cs acc"
  shows "foldl fadd (Finite acc)
           (map (\<lambda>(k, c). fmul c (power_f64 pw (Finite x) k)) (enumerate n (map Finite cs)))
         = Finite (acc + (\<Sum>k<length cs. cs ! k * x ^ (n + k)))"
  using assms
proof (induction cs arbitrary: n acc)
  case Nil
  then show ?case by simp
next
  case (Cons c cs)
  from Cons.prems have step: "power_f64 pw (Finite x) n = Finite (x ^ n)"
    "fmul (Finite c) (Finite (x ^ n)) = Finite (c * x ^ n)"
    "fadd (Finite acc) (Finite (c * x ^ n)) = Finite (acc + c * x ^ n)"
    and rest: "exact_from pw x (Suc n) cs (acc + c * x ^ n)"
    by simp_all
  have "foldl fadd (Finite acc)
           (map (\<lambda>(k, c). fmul c (power_f64 pw (Finite x) k)) (enumerate n (map Finite (c # cs))))
        = foldl fadd (Finite (acc + c * x ^ n))
           (map (\<lambda>(k, c). fmul c (power_f64 pw (Finite x) k)) (enumerate (Suc n) (map Finite cs)))"
    using step by simp
  also have "\<dots> = Finite ((acc + c * x ^ n) + (\<Sum>k<length cs. cs ! k * x ^ (Suc n + k)))"
    by (rule Cons.IH[OF rest])
  also have "(acc + c * x ^ n) + (\<Sum>k<length cs. cs ! k * x ^ (Suc n + k))
             = acc + (\<Sum>k<length (c # cs). (c # cs) ! k * x ^ (n + k))"
    by (simp add: sum.lessThan_Suc_shift add.assoc del: sum.lessThan_Suc)
  finally show ?case .
qed

lemma float_sum_exact:
  assumes "exact_eval pw ts x"
  shows "float_sum pw (map Finite ts) (Finite x) = Finite (poly_eval ts x)"
  using exact_fold[of pw x 0 ts 0] assms
  by (simp add: float_sum_enumerate exact_eval_def poly_eval_def)

lemma poly_eval_linear:
  assumes "length t1 = length t2"
  shows "poly_eval (map2 (\<lambda>u v. a * u + b * v) t1 t2) x = a * poly_eval t1 x + b * poly_eval t2 x"
proof -
  have "poly_eval (map2 (\<lambda>u v. a * u + b * v) t1 t2) x
        = (\<Sum>k<length t1. (a * t1 ! k + b * t2 ! k) * x ^ k)"
    unfolding poly_eval_def using assms by (intro sum.cong) simp_all
  also have "\<dots> = (\<Sum>k<length t1. a * (t1 ! k * x ^ k) + b * (t2 ! k * x ^ k))"
    by (intro sum.cong) (simp_all add: algebra_simps)
  also have "\<dots> = a * poly_eval t1 x + b * poly_eval t2 x"
    using assms by (simp add: poly_eval_def sum.distrib sum_distrib_left)
  finally show ?thesis .
qed

lemmas glm_f64_defs = generalised_linear_model_f64_def py_sum_f64_def power_f64_def f64_defs
  enumerate_eq_zip

lemma c4_value:
  "generalised_linear_model_f64 pow_rn [Finite 3] [Finite 0, Finite (3602879701896397 / 2 ^ 55)]
     = VecF [Finite (5404319552844596 / 2 ^ 54)]"
  by (simp add: glm_f64_defs)

text \<open>
  C4. The entries of the result are float64 sums, not exact ones: for the point 3 and
  the coefficients \<open>[0, 0.1]\<close> (0.1 being the binary64 number
  \<open>3602879701896397 / 2^55\<close>) the evaluator returns \<open>0.30000000000000004\<close>, which is not
  the sum of \<open>theta[k] * 3^k\<close>.
\<close>

theorem evaluator_rounds_counterexample:
  "\<not> (\<exists>out. generalised_linear_model_f64 pow_rn [Finite 3] [Finite 0, Finite (3602879701896397 / 2 ^ 55)]
               = VecF out
            \<and> out ! 0 = Finite (\<Sum>k\<le>1. [0, 3602879701896397 / 2 ^ 55] ! k * 3 ^ k))"
proof
  assume "\<exists>out. generalised_linear_model_f64 pow_rn [Finite 3] [Finite 0, Finite (3602879701896397 / 2 ^ 55)]
               = VecF out
            \<and> out ! 0 = Finite (\<Sum>k\<le>1. [0, 3602879701896397 / 2 ^ 55] ! k * 3 ^ k)"
  then obtain out where
    "generalised_linear_model_f64 pow_rn [Finite 3] [Finite 0, Finite (3602879701896397 / 2 ^ 55)]
       = VecF out"
    and "out ! 0 = Finite (\<Sum>k\<le>1. [0, 3602879701896397 / 2 ^ 55] ! k * 3 ^ k)"
    by blast
  with c4_value show False by auto
qed

text \<open>
  C4, as the code has it. For coefficients \<open>T\<close> of length \<open>d + 1\<close> (also \<open>d = 0\<close>) and
  float64 evaluation points of any length (also none), the evaluator returns an array as
  long as the points, whose \<open>i\<close>-th entry is the float64 sum, accumulated from the left
  from 0, of the float64 products \<open>T[k] * X_eval[i] ** k\<close> for \<open>k = 0..d\<close>; it is the exact
  sum of \<open>T[k] * X_eval[i]^k\<close> whenever none of these operations rounds.
\<close>

theorem evaluator_float_sum:
  assumes "length T = d + 1"
  shows "\<exists>out. generalised_linear_model_f64 pw X_eval T = VecF out \<and> length out = length X_eval
           \<and> (\<forall>i<length X_eval.
                 out ! i = foldl fadd (Finite 0)
                             (map (\<lambda>k. fmul (T ! k) (power_f64 pw (X_eval ! i) k)) [0..<d + 1])
                 \<and> (\<forall>x ts. X_eval ! i = Finite x \<and> T = map Finite ts \<and> exact_eval pw ts x
                       \<longrightarrow> out ! i = Finite (\<Sum>k\<le>d. ts ! k * x ^ k)))"
proof -
  from assms have ne: "T \<noteq> []" by auto
  have g: "generalised_linear_model_f64 pw X_eval T = VecF (map (float_sum pw T) X_eval)"
    using ne by (simp add: glm_f64_closed_form)
  have "float_sum pw T (X_eval ! i) = Finite (\<Sum>k\<le>d. ts ! k * x ^ k)"
    if "X_eval ! i = Finite x" "T = map Finite ts" "exact_eval pw ts x" for i x ts
  proof -
    have "length ts = d + 1" using assms that(2) by simp
    then have "{..<length ts} = {..d}" by auto
    then show ?thesis
      using float_sum_exact[OF that(3)] that(1,2) by (simp add: poly_eval_def)
  qed
  then show ?thesis
    using g assms by (auto simp: float_sum_def simp del: upt_Suc)
qed

theorem evaluator_float_sum_witness:
  "generalised_linear_model_f64 pow_rn [Finite 2, Finite 3] [Finite 1, Finite 2, Finite 1]
     = VecF [Finite 9, Finite 16]
   \<and> exact_eval pow_rn [1, 2, 1] 2 \<and> (\<Sum>k\<le>2. [1, 2, 1 :: real] ! k * 2 ^ k) = 9
   \<and> generalised_linear_model_f64 pow_rn [] [Finite 1, Finite 2, Finite 1] = VecF []
   \<and> generalised_linear_model_f64 pow_rn [Finite 2, Finite 3] [Finite 5] = VecF [Finite 5, Finite 5]"
proof -
  have e: "exact_eval pow_rn [1, 2, 1] 2"
    by (simp add: exact_eval_def power_f64_def f64_defs numeral_2_eq_2)
  have s: "(\<Sum>k\<le>2. [1, 2, 1 :: real] ! k * 2 ^ k) = 9"
    by (simp add: numeral_2_eq_2 atMost_Suc)
  have l3: "length [Finite 1, Finite 2, Finite 1] = 2 + 1" and l1: "length [Finite 5] = 0 + 1"
    by simp_all
  from evaluator_float_sum[OF l3, of pow_rn "[Finite 2, Finite 3]"] obtain out where
    o: "generalised_linear_model_f64 pow_rn [Finite 2, Finite 3] [Finite 1, Finite 2, Finite 1] = VecF out"
    "length out = 2" by auto
  have v: "generalised_linear_model_f64 pow_rn [Finite 2, Finite 3] [Finite 1, Finite 2, Finite 1]
     = VecF [Finite 9, Finite 16]"
    by (simp add: glm_f64_defs)
  from evaluator_float_sum[OF l3, of pow_rn "[]"]
  have n: "generalised_linear_model_f64 pow_rn [] [Finite 1, Finite 2, Finite 1] = VecF []"
    by auto
  have c: "generalised_linear_model_f64 pow_rn [Finite 2, Finite 3] [Finite 5] = VecF [Finite 5, Finite 5]"
    using evaluator_float_sum[OF l1, of pow_rn "[Finite 2, Finite 3]"]
    by (simp add: glm_f64_defs)
  from o v e s n c show ?thesis by simp
qed

lemma c9_left:
  "generalised_linear_model_f64 pow_rn [Finite (5404319552844595 / 2 ^ 54)]
     (map2 fadd (map (fmul (Finite (3602879701896397 / 2 ^ 55)))
                   [Finite 0, Finite (3602879701896397 / 2 ^ 54)])
                (map (fmul (Finite 0)) [Finite 0, Finite 0]))
   = VecF [Finite (6917529027641083 / 2 ^ 60)]"
  by (simp add: glm_f64_defs)

lemma c9_right:
  "py_add_f64
     (py_scale_f64 (Finite (3602879701896397 / 2 ^ 55))
        (generalised_linear_model_f64 pow_rn [Finite (5404319552844595 / 2 ^ 54)]
           [Finite 0, Finite (3602879701896397 / 2 ^ 54)]))
     (py_scale_f64 (Finite 0)
        (generalised_linear_model_f64 pow_rn [Finite (5404319552844595 / 2 ^ 54)]
           [Finite 0, Finite 0]))
   = VecF [Finite (3458764513820541 / 2 ^ 59)]"
  by (simp add: glm_f64_defs)

text \<open>
  C9. In float64 the evaluator is not linear: for the point 0.3, \<open>theta1 = [0, 0.2]\<close>,
  \<open>theta2 = [0, 0]\<close>, \<open>a = 0.1\<close> and \<open>b = 0\<close> (each the nearest binary64 number) the left
  side is \<open>0.006000000000000001\<close> and the right side \<open>0.006\<close>.
\<close>

theorem evaluator_not_linear_counterexample:
  "generalised_linear_model_f64 pow_rn [Finite (5404319552844595 / 2 ^ 54)]
     (map2 fadd (map (fmul (Finite (3602879701896397 / 2 ^ 55)))
                   [Finite 0, Finite (3602879701896397 / 2 ^ 54)])
                (map (fmul (Finite 0)) [Finite 0, Finite 0]))
   \<noteq> py_add_f64
     (py_scale_f64 (Finite (3602879701896397 / 2 ^ 55))
        (generalised_linear_model_f64 pow_rn [Finite (5404319552844595 / 2 ^ 54)]
           [Finite 0, Finite (3602879701896397 / 2 ^ 54)]))
     (py_scale_f64 (Finite 0)
        (generalised_linear_model_f64 pow_rn [Finite (5404319552844595 / 2 ^ 54)]
           [Finite 0, Finite 0]))"
  unfolding c9_left c9_right by simp

lemma round_f64_zero: "round_f64 0 = Finite 0"
  by (simp add: f64_defs)

lemma glm_f64_exact:
  assumes "ts \<noteq> []" and "list_all (exact_eval pw ts) xs"
  shows "generalised_linear_model_f64 pw (map Finite xs) (map Finite ts)
           = VecF (map (\<lambda>x. Finite (poly_eval ts x)) xs)"
proof -
  have "map (float_sum pw (map Finite ts)) (map Finite xs) = map (\<lambda>x. Finite (poly_eval ts x)) xs"
    using assms(2) by (induction xs) (simp_all add: float_sum_exact)
  then show ?thesis using assms(1) by (simp add: glm_f64_closed_form)
qed

text \<open>
  C9, as the code has it. The evaluator is linear in the coefficients up to rounding: for
  \<open>theta1\<close> and \<open>theta2\<close> of equal length and scalars \<open>a\<close>, \<open>b\<close>, evaluating
  \<open>a * theta1 + b * theta2\<close> gives \<open>a\<close> times the evaluation of \<open>theta1\<close> plus \<open>b\<close> times
  that of \<open>theta2\<close> whenever the float64 operations involved (the combination of the
  coefficients, the three evaluations and the combination of the results) do not round.
\<close>

theorem evaluator_linear_when_exact:
  assumes combo: "list_all2 (exact_combination a b) t1 t2"
    and evals: "list_all (\<lambda>x. exact_eval pw t1 x \<and> exact_eval pw t2 x
                    \<and> exact_eval pw (map2 (\<lambda>u v. a * u + b * v) t1 t2) x
                    \<and> exact_combination a b (poly_eval t1 x) (poly_eval t2 x)) xs"
  shows "generalised_linear_model_f64 pw (map Finite xs)
           (map2 fadd (map (fmul (Finite a)) (map Finite t1)) (map (fmul (Finite b)) (map Finite t2)))
         = py_add_f64
             (py_scale_f64 (Finite a) (generalised_linear_model_f64 pw (map Finite xs) (map Finite t1)))
             (py_scale_f64 (Finite b) (generalised_linear_model_f64 pw (map Finite xs) (map Finite t2)))"
proof -
  let ?t = "map2 (\<lambda>u v. a * u + b * v) t1 t2"
  have len: "length t1 = length t2" using combo by (rule list_all2_lengthD)
  have c: "map2 fadd (map (fmul (Finite a)) (map Finite t1)) (map (fmul (Finite b)) (map Finite t2))
           = map Finite ?t"
    using combo by (induction t1 t2 rule: list_all2_induct) (simp_all add: exact_combination_def)
  show ?thesis
  proof (cases "t1 = []")
    case True
    with len show ?thesis by (simp add: glm_f64_closed_form round_f64_zero)
  next
    case False
    then have ne: "t1 \<noteq> []" "t2 \<noteq> []" "?t \<noteq> []" using len by auto
    have e1: "list_all (exact_eval pw t1) xs" and e2: "list_all (exact_eval pw t2) xs"
      and e3: "list_all (exact_eval pw ?t) xs"
      using evals by (simp_all add: list_all_iff)
    have "map2 fadd (map (fmul (Finite a)) (map (\<lambda>x. Finite (poly_eval t1 x)) xs))
                    (map (fmul (Finite b)) (map (\<lambda>x. Finite (poly_eval t2 x)) xs))
          = map (\<lambda>x. Finite (poly_eval ?t x)) xs"
      using evals
      by (induction xs) (simp_all add: exact_combination_def poly_eval_linear[OF len])
    then show ?thesis
      unfolding c glm_f64_exact[OF ne(1) e1] glm_f64_exact[OF ne(2) e2] glm_f64_exact[OF ne(3) e3]
      by simp
  qed
qed

theorem evaluator_linear_when_exact_witness:
  "list_all2 (exact_combination 2 3) [1, 0, 1] [0, 1, 1]
   \<and> list_all (\<lambda>x. exact_eval pow_rn [1, 0, 1] x \<and> exact_eval pow_rn [0, 1, 1] x
                \<and> exact_eval pow_rn (map2 (\<lambda>u v. 2 * u + 3 * v) [1, 0, 1] [0, 1, 1]) x
                \<and> exact_combination 2 3 (poly_eval [1, 0, 1] x) (poly_eval [0, 1, 1] x)) [2, 3]
   \<and> generalised_linear_model_f64 pow_rn (map Finite [2, 3])
         (map2 fadd (map (fmul (Finite 2)) (map Finite [1, 0, 1]))
                    (map (fmul (Finite 3)) (map Finite [0, 1, 1])))
       = py_add_f64
           (py_scale_f64 (Finite 2)
              (generalised_linear_model_f64 pow_rn (map Finite [2, 3]) (map Finite [1, 0, 1])))
           (py_scale_f64 (Finite 3)
              (generalised_linear_model_f64 pow_rn (map Finite [2, 3]) (map Finite [0, 1, 1])))
   \<and> generalised_linear_model_f64 pow_rn (map Finite [2, 3])
         (map2 fadd (map (fmul (Finite 2)) (map Finite [1, 0, 1]))
                    (map (fmul (Finite 3)) (map Finite [0, 1, 1])))
       = VecF [Finite 28, Finite 56]"
proof -
  have c: "list_all2 (exact_combination 2 3) [1, 0, 1] [0, 1, 1]"
    by (simp add: exact_combination_def f64_defs)
  have e1: "exact_eval pow_rn [1, 0, 1] 2" "exact_eval pow_rn [1, 0, 1] 3"
    "exact_eval pow_rn [0, 1, 1] 2" "exact_eval pow_rn [0, 1, 1] 3"
    by (simp_all add: exact_eval_def power_f64_def f64_defs)
  have e2: "exact_eval pow_rn (map2 (\<lambda>u v. 2 * u + 3 * v) [1, 0, 1] [0, 1, 1]) 2"
    "exact_eval pow_rn (map2 (\<lambda>u v. 2 * u + 3 * v) [1, 0, 1] [0, 1, 1]) 3"
    by (simp_all add: exact_eval_def power_f64_def f64_defs)
  have e3: "exact_combination 2 3 (poly_eval [1, 0, 1] 2) (poly_eval [0, 1, 1] 2)"
    "exact_combination 2 3 (poly_eval [1, 0, 1] 3) (poly_eval [0, 1, 1] 3)"
    by (simp_all add: exact_combination_def poly_eval_def f64_defs lessThan_Suc)
  have e: "list_all (\<lambda>x. exact_eval pow_rn [1, 0, 1] x \<and> exact_eval pow_rn [0, 1, 1] x
                \<and> exact_eval pow_rn (map2 (\<lambda>u v. 2 * u + 3 * v) [1, 0, 1] [0, 1, 1]) x
                \<and> exact_combination 2 3 (poly_eval [1, 0, 1] x) (poly_eval [0, 1, 1] x)) [2, 3]"
    using e1 e2 e3 by (simp only: list.pred_inject simp_thms)
  have l: "generalised_linear_model_f64 pow_rn (map Finite [2, 3])
         (map2 fadd (map (fmul (Finite 2)) (map Finite [1, 0, 1]))
                    (map (fmul (Finite 3)) (map Finite [0, 1, 1])))
       = VecF [Finite 28, Finite 56]"
    by (simp add: glm_f64_defs)
  show ?thesis
    using c e evaluator_linear_when_exact[OF c e] l by (intro conjI)
qed

section \<open>Properties of the float64 solver\<close>









lemma lss_f64_returns:
  assumes "linalg_inv (normal_matrix_f64 X d) = Inr B" "length Y = length X"
  shows "least_squares_solution_f64 linalg_inv X Y d
           = Inr (matvec_f64 (matmul_f64 (length X) B (transpose_f64 (d + 1) (vander_f64 X (d + 1)))) Y)"
  using assms by (simp add: least_squares_solution_f64_def normal_matrix_f64_def Let_def)

lemma lss_f64_raises:
  assumes "linalg_inv (normal_matrix_f64 X d) = Inl e"
  shows "least_squares_solution_f64 linalg_inv X Y d = Inl e"
  using assms by (simp add: least_squares_solution_f64_def normal_matrix_f64_def Let_def)







text \<open>
  C2. The solver has no singularity check of its own: for \<open>X = [1,2,3]\<close> and degree 3
  the matrix of the normal equations has no inverse, and the call still returns
  coefficients whenever the inverse routine returns a matrix (here: its argument).
\<close>

theorem singular_matrix_accepted:
  "\<not> (\<exists>B. is_inverse 4 B (normal_matrix [1, 2, 3] 3))
   \<and> (\<exists>theta. least_squares_solution Inr [1, 2, 3] [1, 2, 3] 3 = Inr theta)
   \<and> (\<exists>theta. least_squares_solution_f64 Inr [Finite 1, Finite 2, Finite 3]
                 [Finite 1, Finite 2, Finite 3] 3 = Inr theta)"
proof -
  have e: "(3 :: nat) + 1 = 4" by simp
  have s: "\<not> (\<exists>B. is_inverse 4 B (normal_matrix [1, 2, 3] 3))"
    using underdetermined_singular[of "[1, 2, 3]" 3, unfolded e] by simp
  have "\<exists>theta. least_squares_solution Inr [1, 2, 3] [1, 2, 3] 3 = Inr theta"
    by (simp add: least_squares_solution_def Let_def)
  moreover have "\<exists>theta. least_squares_solution_f64 Inr [Finite 1, Finite 2, Finite 3]
                 [Finite 1, Finite 2, Finite 3] 3 = Inr theta"
    by (simp add: least_squares_solution_f64_def Let_def)
  ultimately show ?thesis using s by blast
qed

lemma inv_f64_singular:
  "inv_f64 (normal_matrix_f64 [Finite 1, Finite 2, Finite 3] 3) = Inl LinAlgError"
  by (simp add: inv_f64_def normal_matrix_f64_def matmul_f64_def transpose_f64_def vander_f64_def
      dot_f64_def exact_inv_def drop_nth_def f64_defs upt_0_numeral upt_Suc_numeral)

text \<open>
  C2, as the code has it. \<open>least_squares_solution\<close> raises the singularity error exactly
  when \<open>np.linalg.inv\<close> raises it on the matrix of the normal equations, and returns
  coefficients whenever \<open>np.linalg.inv\<close> returns a matrix and \<open>Y\<close> is as long as \<open>X\<close>. In
  exact arithmetic that matrix is singular whenever the degree is at least the number of
  samples, so the failure then rests on \<open>np.linalg.inv\<close> detecting it.
\<close>

theorem singularity_error_from_inv_only:
  "(linalg_inv (normal_matrix_f64 X d) = Inl e
      \<longrightarrow> least_squares_solution_f64 linalg_inv X Y d = Inl e)
   \<and> (linalg_inv (normal_matrix_f64 X d) = Inr B \<and> length Y = length X
      \<longrightarrow> least_squares_solution_f64 linalg_inv X Y d
            = Inr (matvec_f64 (matmul_f64 (length X) B (transpose_f64 (d + 1) (vander_f64 X (d + 1)))) Y))
   \<and> (least_squares_solution_f64 linalg_inv X Y d = Inl LinAlgError
      \<longrightarrow> linalg_inv (normal_matrix_f64 X d) = Inl LinAlgError)
   \<and> (length Xr \<le> d \<longrightarrow> \<not> (\<exists>B. is_inverse (d + 1) B (normal_matrix Xr d)))"
proof -
  have "linalg_inv (normal_matrix_f64 X d) = Inl LinAlgError"
    if "least_squares_solution_f64 linalg_inv X Y d = Inl LinAlgError"
    using that
    by (auto simp: least_squares_solution_f64_def normal_matrix_f64_def Let_def
        split: sum.splits if_splits)
  then show ?thesis
    using lss_f64_raises[of linalg_inv X d e Y] lss_f64_returns[of linalg_inv X d B Y]
      underdetermined_singular[of Xr d]
    by blast
qed

theorem singularity_error_from_inv_only_witness:
  "inv_f64 (normal_matrix_f64 [Finite 1, Finite 2, Finite 3] 3) = Inl LinAlgError
   \<and> least_squares_solution_f64 inv_f64 [Finite 1, Finite 2, Finite 3]
        [Finite 1, Finite 2, Finite 3] 3 = Inl LinAlgError
   \<and> length [Finite 1, Finite 2, Finite 3] = length [Finite 1, Finite 2, Finite 3]
   \<and> (\<exists>theta. least_squares_solution_f64 Inr [Finite 1, Finite 2, Finite 3]
                 [Finite 1, Finite 2, Finite 3] 3 = Inr theta)
   \<and> length [1, 2, 3 :: real] \<le> 3
   \<and> \<not> (\<exists>B. is_inverse (3 + 1) B (normal_matrix [1, 2, 3] 3))"
proof -
  note T = singularity_error_from_inv_only[of inv_f64 "[Finite 1, Finite 2, Finite 3]" 3
      LinAlgError "[Finite 1, Finite 2, Finite 3]" "[]" "[1, 2, 3]"]
  note U = singularity_error_from_inv_only[of Inr "[Finite 1, Finite 2, Finite 3]" 3
      LinAlgError "[Finite 1, Finite 2, Finite 3]"
      "normal_matrix_f64 [Finite 1, Finite 2, Finite 3] 3" "[1, 2, 3]"]
  have a: "least_squares_solution_f64 inv_f64 [Finite 1, Finite 2, Finite 3]
        [Finite 1, Finite 2, Finite 3] 3 = Inl LinAlgError"
    using T inv_f64_singular by blast
  have b: "\<exists>theta. least_squares_solution_f64 Inr [Finite 1, Finite 2, Finite 3]
                 [Finite 1, Finite 2, Finite 3] 3 = Inr theta"
    using U by blast
  have l: "length [1, 2, 3 :: real] \<le> 3" by simp
  then have c: "\<not> (\<exists>B. is_inverse (3 + 1) B (normal_matrix [1, 2, 3] 3))"
    using T by blast
  from inv_f64_singular a b l c show ?thesis by simp
qed

end
